theory Spec2Isabelle
  imports Main "HOL-Library.Word"
begin

unbundle bit_operations_syntax

section \<open>Python values used by \<^verbatim>\<open>cbfimage.py\<close>\<close>

text \<open>
  The module is Python 2: a \<^verbatim>\<open>str\<close> is a sequence of bytes, modelled as \<^typ>\<open>string\<close>
  (a list of 8-bit characters). Exceptions are values: every function that can raise
  returns \<open>py_error + 'a\<close>, with \<open>Inl\<close> the exception. A loop that can run forever is a
  \<^theory_text>\<open>partial_function (option)\<close>: \<open>None\<close> is "does not return".
\<close>

datatype py_error =
    IndexError
  | ZeroDivisionError
  | KeyError string
  | ValueError
  | AssertionError
  | Exception_IOError string  \<comment> \<open>\<^verbatim>\<open>raise Exception(IOError, msg)\<close>\<close>
  | SizeMismatch              \<comment> \<open>the codec's size-mismatch condition\<close>

text \<open>\<^verbatim>\<open>s[i]\<close>: a negative index counts from the end, out of range raises.\<close>

definition py_index :: "'a list \<Rightarrow> int \<Rightarrow> py_error + 'a" where
  "py_index s i =
     (let n = int (length s); j = (if i < 0 then i + n else i)
      in if 0 \<le> j \<and> j < n then Inr (s ! nat j) else Inl IndexError)"

text \<open>A slice bound: negative counts from the end, then clamped to \<open>0..len\<close>.\<close>

definition py_bound :: "nat \<Rightarrow> int \<Rightarrow> nat" where
  "py_bound n i = (if i < 0 then nat (max (i + int n) 0) else min (nat i) n)"

text \<open>\<^verbatim>\<open>s[a:b]\<close> and \<^verbatim>\<open>s[a:]\<close>.\<close>

definition py_slice :: "'a list \<Rightarrow> int \<Rightarrow> int \<Rightarrow> 'a list" where
  "py_slice s a b =
     (let lo = py_bound (length s) a; hi = py_bound (length s) b
      in take (hi - lo) (drop lo s))"

definition py_slice_from :: "'a list \<Rightarrow> int \<Rightarrow> 'a list" where
  "py_slice_from s a = drop (py_bound (length s) a) s"

text \<open>\<^verbatim>\<open>s.find(sub)\<close>: the lowest index where \<open>sub\<close> starts, \<open>-1\<close> when there is none.\<close>

fun py_find :: "string \<Rightarrow> string \<Rightarrow> int" where
  "py_find [] sub = (if sub = [] then 0 else -1)"
| "py_find (c # cs) sub =
     (if take (length sub) (c # cs) = sub then 0
      else (let r = py_find cs sub in if r < 0 then -1 else r + 1))"

text \<open>The whitespace of a Python 2 \<^verbatim>\<open>str\<close>: space, tab, LF, VT, FF, CR.\<close>

definition py_isspace :: "char \<Rightarrow> bool" where
  "py_isspace c = (c \<in> set [CHR '' '', CHR 0x09, CHR 0x0A, CHR 0x0B, CHR 0x0C, CHR 0x0D])"

text \<open>\<^verbatim>\<open>s.strip()\<close>.\<close>

definition py_strip :: "string \<Rightarrow> string" where
  "py_strip s = rev (dropWhile py_isspace (rev (dropWhile py_isspace s)))"

text \<open>\<^verbatim>\<open>s.split(None, 1)[0]\<close>: the first word; \<^verbatim>\<open>[0]\<close> raises when there is no word.\<close>

definition py_first_word :: "string \<Rightarrow> py_error + string" where
  "py_first_word s =
     (let t = dropWhile py_isspace s
      in if t = [] then Inl IndexError else Inr (takeWhile (\<lambda>c. \<not> py_isspace c) t))"

text \<open>\<^verbatim>\<open>s.lower()\<close> on bytes: only the ASCII capitals change.\<close>

definition py_lower_char :: "char \<Rightarrow> char" where
  "py_lower_char c =
     (case map_of (zip ''ABCDEFGHIJKLMNOPQRSTUVWXYZ'' ''abcdefghijklmnopqrstuvwxyz'') c of
        None \<Rightarrow> c | Some l \<Rightarrow> l)"

definition py_lower :: "string \<Rightarrow> string" where
  "py_lower s = map py_lower_char s"


section \<open>The CIF document: \<^verbatim>\<open>class CIF(dict)\<close>\<close>

text \<open>
  A record of a loop is a Python dict from column key to value. The value stored under a
  document key is a string, or (under \<^verbatim>\<open>"loop_"\<close>) the list of loops, each a pair of
  its column keys and its records.
\<close>

type_synonym element = "string \<rightharpoonup> string"

datatype cif_value = Str string | Loops "(string list \<times> element list) list"

text \<open>The object: the dict itself and the attribute \<^verbatim>\<open>_ordered\<close>.\<close>

record 'v cif =
  items :: "string \<rightharpoonup> 'v"
  ordered :: "string list"

text \<open>\<^verbatim>\<open>CIF()\<close>: an empty dict and \<^verbatim>\<open>self._ordered = []\<close>.\<close>

definition CIF_init :: "'v cif" where
  "CIF_init = \<lparr>items = Map.empty, ordered = []\<rparr>"

text \<open>\<^verbatim>\<open>CIF.__setitem__\<close>.\<close>

definition setitem :: "string \<Rightarrow> 'v \<Rightarrow> 'v cif \<Rightarrow> 'v cif" where
  "setitem key val c =
     \<lparr>items = (items c)(key \<mapsto> val),
      ordered = (if key \<notin> set (ordered c) then ordered c @ [key] else ordered c)\<rparr>"

text \<open>\<^verbatim>\<open>list.index\<close>, used to read a key's position in \<^verbatim>\<open>_ordered\<close>; \<open>None\<close> when absent.\<close>

fun index_of :: "'a \<Rightarrow> 'a list \<Rightarrow> nat option" where
  "index_of x [] = None"
| "index_of x (y # ys) = (if x = y then Some 0 else map_option Suc (index_of x ys))"


section \<open>The tokenizer: \<^verbatim>\<open>CIF._splitCIF\<close>\<close>

definition EOL :: "string list" where
  "EOL = [[CHR 0x0D], [CHR 0x0A], [CHR 0x0D, CHR 0x0A], [CHR 0x0A, CHR 0x0D]]"

definition BLANK :: "string list" where
  "BLANK = [[CHR '' ''], [CHR 0x09]] @ EOL"

definition BINARY_MARKER :: string where
  "BINARY_MARKER = ''--CIF-BINARY-FORMAT-SECTION--''"

text \<open>
  The inner \<^verbatim>\<open>while not bFinished\<close> loop of a quoted field. The source has it twice,
  for \<^verbatim>\<open>'\<close> and for \<^verbatim>\<open>"\<close>, the same but for the quote character \<open>q\<close>. It returns the field
  appended and the new \<^verbatim>\<open>sText\<close>. When \<^verbatim>\<open>find\<close> gives \<open>-1\<close>, \<open>idx\<close> does not move.
\<close>

partial_function (option) quoted_loop ::
  "char \<Rightarrow> string \<Rightarrow> int \<Rightarrow> (py_error + string \<times> string) option" where
  "quoted_loop q sText idx0 =
     (let idx = idx0 + (1 + py_find (py_slice_from sText (idx0 + 1)) [q]) in
      if idx \<ge> int (length sText) - 1 then
        Some (Inr (py_strip (py_slice sText 1 (-1)), []))
      else
        (case py_index sText (idx + 1) of
           Inl e \<Rightarrow> Some (Inl e)
         | Inr c \<Rightarrow>
             if [c] \<in> set BLANK then
               Some (Inr (py_strip (py_slice sText 1 idx), py_strip (py_slice_from sText (idx + 1))))
             else quoted_loop q sText idx))"

text \<open>The start of the scan of a \<^verbatim>\<open>;\<close> field: past the second binary marker, if any.\<close>

definition semicolon_start :: "string \<Rightarrow> int" where
  "semicolon_start sText =
     (if py_find (py_strip (py_slice_from sText 1)) BINARY_MARKER = 0 then
        (let idx = py_find (py_slice_from sText 32) BINARY_MARKER in
         if idx = -1 then 0 else idx + (32 + int (length BINARY_MARKER)))
      else 0)"

text \<open>The inner loop of a \<^verbatim>\<open>;\<close> field.\<close>

partial_function (option) semicolon_loop ::
  "string \<Rightarrow> int \<Rightarrow> (py_error + string \<times> string) option" where
  "semicolon_loop sText idx0 =
     (let idx = idx0 + (1 + py_find (py_slice_from sText (idx0 + 1)) '';'') in
      case py_index sText (idx - 1) of
        Inl e \<Rightarrow> Some (Inl e)
      | Inr c \<Rightarrow>
          if [c] \<in> set EOL then
            Some (Inr (py_strip (py_slice sText 1 (idx - 1)), py_strip (py_slice_from sText (idx + 1))))
          else semicolon_loop sText idx)"

text \<open>The outer \<^verbatim>\<open>while True\<close> loop, with \<^verbatim>\<open>lFields\<close> and \<^verbatim>\<open>sText\<close> as its state.\<close>

partial_function (option) splitCIF_loop ::
  "string list \<Rightarrow> string \<Rightarrow> (py_error + string list) option" where
  "splitCIF_loop lFields sText =
     (if length sText = 0 then Some (Inr lFields)
      else if sText ! 0 = CHR 0x27 then
        (case quoted_loop (CHR 0x27) sText 0 of
           None \<Rightarrow> None
         | Some (Inl e) \<Rightarrow> Some (Inl e)
         | Some (Inr (f, sText')) \<Rightarrow> splitCIF_loop (lFields @ [f]) sText')
      else if sText ! 0 = CHR 0x22 then
        (case quoted_loop (CHR 0x22) sText 0 of
           None \<Rightarrow> None
         | Some (Inl e) \<Rightarrow> Some (Inl e)
         | Some (Inr (f, sText')) \<Rightarrow> splitCIF_loop (lFields @ [f]) sText')
      else if sText ! 0 = CHR '';'' then
        (case semicolon_loop sText (semicolon_start sText) of
           None \<Rightarrow> None
         | Some (Inl e) \<Rightarrow> Some (Inl e)
         | Some (Inr (f, sText')) \<Rightarrow> splitCIF_loop (lFields @ [f]) sText')
      else
        (case py_first_word sText of
           Inl e \<Rightarrow> Some (Inl e)
         | Inr f \<Rightarrow>
             splitCIF_loop (lFields @ [f]) (py_strip (py_slice_from sText (int (length f))))))"

definition splitCIF :: "string \<Rightarrow> (py_error + string list) option" where
  "splitCIF sText = splitCIF_loop [] sText"

declare quoted_loop.simps [code] semicolon_loop.simps [code] splitCIF_loop.simps [code]


section \<open>The assembler: \<^verbatim>\<open>CIF._analyseOneLoop\<close> and \<^verbatim>\<open>CIF._parseCIF\<close>\<close>

text \<open>
  The first loop of \<^verbatim>\<open>_analyseOneLoop\<close>, run on the fields from index \<open>i\<close> on: it
  collects the fields that begin with \<^verbatim>\<open>_\<close> and returns them with the fields left.
  \<^verbatim>\<open>lFields[i][0]\<close> raises at the end of the list and on an empty field.
\<close>

fun scan_keys :: "string list \<Rightarrow> py_error + string list \<times> string list" where
  "scan_keys [] = Inl IndexError"
| "scan_keys (f # fs) =
     (case py_index f 0 of
        Inl e \<Rightarrow> Inl e
      | Inr c \<Rightarrow>
          if c = CHR ''_'' then
            (case scan_keys fs of
               Inl e \<Rightarrow> Inl e
             | Inr (keys, rest) \<Rightarrow> Inr (f # keys, rest))
          else Inr ([], f # fs))"

text \<open>The second loop: the data values, up to the end, an empty field, a key or a keyword.\<close>

fun scan_data :: "string list \<Rightarrow> string list" where
  "scan_data [] = []"
| "scan_data (f # fs) =
     (if length f = 0 then []
      else if f ! 0 = CHR ''_'' then []
      else if f \<in> set [''loop_'', ''stop_'', ''global_'', ''data_'', ''save_''] then []
      else f # scan_data fs)"

text \<open>
  \<^verbatim>\<open>for j in keys\<close> of the branch \<^verbatim>\<open>len(data) < len(keys)\<close>: the record gets
  \<^verbatim>\<open>data[k]\<close> while there is data, then \<^verbatim>\<open>"?"\<close>.
\<close>

fun fill_padded :: "string list \<Rightarrow> string list \<Rightarrow> nat \<Rightarrow> element \<Rightarrow> element" where
  "fill_padded [] data k element = element"
| "fill_padded (j # js) data k element =
     fill_padded js data (k + 1) (element(j \<mapsto> (if k < length data then data ! k else ''?'')))"

text \<open>
  \<^verbatim>\<open>for j in keys\<close> of the other branch: \<^verbatim>\<open>element[j] = data[k]; k += 1\<close>. It returns
  the record and the new \<open>k\<close>; \<^verbatim>\<open>data[k]\<close> raises out of range.
\<close>

fun fill_full :: "string list \<Rightarrow> string list \<Rightarrow> nat \<Rightarrow> element \<Rightarrow> py_error + element \<times> nat" where
  "fill_full [] data k element = Inr (element, k)"
| "fill_full (j # js) data k element =
     (if k < length data then fill_full js data (k + 1) (element(j \<mapsto> data ! k))
      else Inl IndexError)"

text \<open>\<^verbatim>\<open>for i in range(n)\<close>: one full record per round, \<open>k\<close> carried on.\<close>

fun full_records :: "nat \<Rightarrow> string list \<Rightarrow> string list \<Rightarrow> nat \<Rightarrow> py_error + element list" where
  "full_records 0 keys data k = Inr []"
| "full_records (Suc n) keys data k =
     (case fill_full keys data k Map.empty of
        Inl e \<Rightarrow> Inl e
      | Inr (element, k') \<Rightarrow>
          (case full_records n keys data k' of
             Inl e \<Rightarrow> Inl e
           | Inr loop \<Rightarrow> Inr (element # loop)))"

text \<open>
  The partition of the data into records. \<^verbatim>\<open>len(data) / len(keys)\<close> is Python 2's integer
  division and raises on zero keys.
\<close>

definition partition_loop :: "string list \<Rightarrow> string list \<Rightarrow> py_error + element list" where
  "partition_loop keys data =
     (if length data < length keys then Inr [fill_padded keys data 0 Map.empty]
      else if length keys = 0 then Inl ZeroDivisionError
      else full_records (length data div length keys) keys data 0)"

text \<open>\<^verbatim>\<open>_analyseOneLoop(lFields, iStart)\<close> returns the records, the length consumed, the keys.\<close>

definition analyseOneLoop ::
  "string list \<Rightarrow> nat \<Rightarrow> py_error + element list \<times> nat \<times> string list" where
  "analyseOneLoop lFields iStart =
     (case scan_keys (drop (iStart + 1) lFields) of
        Inl e \<Rightarrow> Inl e
      | Inr (keys, rest) \<Rightarrow>
          (let data = scan_data rest in
           case partition_loop keys data of
             Inl e \<Rightarrow> Inl e
           | Inr loop \<Rightarrow> Inr (loop, 1 + length keys + length data, keys)))"

text \<open>\<^verbatim>\<open>for i in loopidx\<close>: analyse every loop; the first exception ends it.\<close>

fun analyse_loops ::
  "string list \<Rightarrow> nat list \<Rightarrow> py_error + (string list \<times> element list) list \<times> nat list" where
  "analyse_loops lFields [] = Inr ([], [])"
| "analyse_loops lFields (i # is) =
     (case analyseOneLoop lFields i of
        Inl e \<Rightarrow> Inl e
      | Inr (loopone, len, keys) \<Rightarrow>
          (case analyse_loops lFields is of
             Inl e \<Rightarrow> Inl e
           | Inr (loop, looplen) \<Rightarrow> Inr ((keys, loopone) # loop, len # looplen)))"

text \<open>
  \<^verbatim>\<open>for i in range(len(loopidx) - 1, -1, -1)\<close>: the loops are cut out of the field list,
  the last one first. The argument pairs each \<^verbatim>\<open>loopidx[i]\<close> with its \<^verbatim>\<open>looplen[i]\<close>.
\<close>

fun remove_loops :: "string list \<Rightarrow> (nat \<times> nat) list \<Rightarrow> string list" where
  "remove_loops lFields [] = lFields"
| "remove_loops lFields ((i, len) # spans) =
     (let f1 = remove_loops lFields spans in take i f1 @ drop (i + len) f1)"

text \<open>
  The last loop of \<^verbatim>\<open>_parseCIF\<close>, \<^verbatim>\<open>for i in range(len(lFields) - 1)\<close>, on the fields
  from index \<open>i\<close> on. The assignment \<^verbatim>\<open>lFields[i + 1] = "?"\<close> is seen by the next round,
  which reads that field as its \<^verbatim>\<open>lFields[i]\<close>.
\<close>

fun pair_fields :: "string list \<Rightarrow> cif_value cif \<Rightarrow> py_error + cif_value cif" where
  "pair_fields (f0 # f1 # rest) c =
     (let f1' = (if length f1 = 0 then ''?'' else f1) in
      case py_index f0 0 of
        Inl e \<Rightarrow> Inl e
      | Inr c0 \<Rightarrow>
          if c0 = CHR ''_'' \<and> f1' ! 0 \<noteq> CHR ''_'' then
            pair_fields (f1' # rest) (setitem f0 (Str f1') c)
          else pair_fields (f1' # rest) c)"
| "pair_fields fs c = Inr c"

text \<open>\<^verbatim>\<open>_parseCIF\<close> after the tokenizer has returned \<^verbatim>\<open>lFields\<close>.\<close>

definition assemble :: "cif_value cif \<Rightarrow> string list \<Rightarrow> py_error + cif_value cif" where
  "assemble c lFields =
     (let loopidx = filter (\<lambda>i. py_lower (lFields ! i) = ''loop_'') [0..<length lFields] in
      if length loopidx > 0 then
        (case analyse_loops lFields loopidx of
           Inl e \<Rightarrow> Inl e
         | Inr (loop, looplen) \<Rightarrow>
             pair_fields (remove_loops lFields (zip loopidx looplen)) (setitem ''loop_'' (Loops loop) c))
      else pair_fields lFields c)"

definition parseCIF :: "cif_value cif \<Rightarrow> string \<Rightarrow> (py_error + cif_value cif) option" where
  "parseCIF c sText =
     (case splitCIF (py_strip sText) of
        None \<Rightarrow> None
      | Some (Inl e) \<Rightarrow> Some (Inl e)
      | Some (Inr lFields) \<Rightarrow> Some (assemble c lFields))"


section \<open>The byte-offset codec\<close>

text \<open>
  Modelled from the spec: the codec functions \<^verbatim>\<open>compByteOffet_numpy\<close> and
  \<^verbatim>\<open>decByteOffet_numpy\<close> are imported from the module \<^verbatim>\<open>compression\<close> (and
  \<^verbatim>\<open>byte_offset.analyseCython\<close> from a compiled module), neither of which is among the
  sources. The definitions of this section follow section 4.3 of the specification.
  A sample is a signed integer representable in 64 bits, the widest element width of a
  sample array, so it is a \<^typ>\<open>64 word\<close> read in two's complement: the difference of two
  samples and the running sum are taken in 64 bits.
\<close>

type_synonym byte = "8 word"
type_synonym sample = "64 word"

text \<open>
  Modelled from the spec: "the 16-bit little-endian delta" and its 8, 32 and 64-bit
  kin, of the missing encoder: the \<open>n\<close> low bytes of a value, the lowest first.
\<close>

fun le_bytes :: "nat \<Rightarrow> sample \<Rightarrow> byte list" where
  "le_bytes 0 w = []"
| "le_bytes (Suc n) w = ucast w # le_bytes n (drop_bit 8 w)"

text \<open>Modelled from the spec: the unsigned value of little-endian bytes (missing decoder).\<close>

fun le_word :: "byte list \<Rightarrow> sample" where
  "le_word [] = 0"
| "le_word (b # bs) = ucast b OR push_bit 8 (le_word bs)"

text \<open>
  Modelled from the spec: "read a signed 16-bit little-endian value" (and 8, 32, 64) of
  the missing decoder: \<open>n\<close> bytes are taken from the stream and sign-extended; \<open>None\<close>
  when the stream is exhausted.
\<close>

definition read_signed :: "nat \<Rightarrow> byte list \<Rightarrow> (sample \<times> byte list) option" where
  "read_signed n bs =
     (if length bs < n then None
      else Some (signed_take_bit (8 * n - 1) (le_word (take n bs)), drop n bs))"

text \<open>Modelled from the spec: "delta fits in signed 8-bit" (16, 32), of the missing encoder.\<close>

definition fits :: "nat \<Rightarrow> sample \<Rightarrow> bool" where
  "fits n d = (- (2 ^ (8 * n - 1)) \<le> sint d \<and> sint d < 2 ^ (8 * n - 1))"

text \<open>
  Modelled from the spec: one round of Decode of the missing decoder. It reads one delta,
  escalating from 8 to 16, 32 and 64 bits at the escape values \<open>-128\<close>, \<open>-32768\<close> and
  \<open>INT32_MIN\<close>.
\<close>

definition read_delta :: "byte list \<Rightarrow> (sample \<times> byte list) option" where
  "read_delta bs =
     (case read_signed 1 bs of
        None \<Rightarrow> None
      | Some (b, bs1) \<Rightarrow>
          if b \<noteq> - 128 then Some (b, bs1)
          else
            (case read_signed 2 bs1 of
               None \<Rightarrow> None
             | Some (s, bs2) \<Rightarrow>
                 if s \<noteq> - 32768 then Some (s, bs2)
                 else
                   (case read_signed 4 bs2 of
                      None \<Rightarrow> None
                    | Some (i, bs3) \<Rightarrow>
                        if i \<noteq> - 2147483648 then Some (i, bs3)
                        else read_signed 8 bs3)))"

text \<open>
  Modelled from the spec: Decode of the missing decoder, "repeat until expectedCount values
  have been produced", with the running cumulative value \<open>cur\<close>. It fails with the
  size-mismatch condition when the stream is exhausted early or bytes remain at the end.
\<close>

fun decode_loop :: "nat \<Rightarrow> sample \<Rightarrow> byte list \<Rightarrow> py_error + sample list" where
  "decode_loop 0 cur bs = (if bs = [] then Inr [] else Inl SizeMismatch)"
| "decode_loop (Suc n) cur bs =
     (case read_delta bs of
        None \<Rightarrow> Inl SizeMismatch
      | Some (delta, rest) \<Rightarrow>
          (case decode_loop n (cur + delta) rest of
             Inl e \<Rightarrow> Inl e
           | Inr vs \<Rightarrow> Inr ((cur + delta) # vs)))"

definition decode :: "byte list \<Rightarrow> nat \<Rightarrow> py_error + sample list" where
  "decode bs expectedCount = decode_loop expectedCount 0 bs"

text \<open>
  Modelled from the spec: the choice of "the narrowest representation that does not collide
  with an escape sentinel" of the missing encoder.
\<close>

definition encode_delta :: "sample \<Rightarrow> byte list" where
  "encode_delta delta =
     (if fits 1 delta \<and> delta \<noteq> - 128 then le_bytes 1 delta
      else if fits 2 delta \<and> delta \<noteq> - 32768 then le_bytes 1 (- 128) @ le_bytes 2 delta
      else if fits 4 delta \<and> delta \<noteq> - 2147483648 then
        le_bytes 1 (- 128) @ le_bytes 2 (- 32768) @ le_bytes 4 delta
      else
        le_bytes 1 (- 128) @ le_bytes 2 (- 32768) @ le_bytes 4 (- 2147483648) @
        le_bytes 8 delta)"

text \<open>
  Modelled from the spec: Encode of the missing encoder, "track previous value, initialized
  to 0; for each value, compute delta = value - previous".
\<close>

fun encode_from :: "sample \<Rightarrow> sample list \<Rightarrow> byte list" where
  "encode_from previous [] = []"
| "encode_from previous (v # vs) = encode_delta (v - previous) @ encode_from v vs"

definition encode :: "sample list \<Rightarrow> byte list" where
  "encode xs = encode_from 0 xs"


section \<open>The container: \<^verbatim>\<open>cbfimage.read\<close> and \<^verbatim>\<open>cbfimage._readbinary_byte_offset\<close>\<close>

text \<open>
  Three things the read path calls are not code of this module and are parameters of the
  model: \<open>to_int\<close> is Python's \<^verbatim>\<open>int\<close> on a string (\<open>None\<close> where it raises);
  \<open>dec\<close> is the decoder (\<^verbatim>\<open>decByteOffet_numpy\<close> or \<^verbatim>\<open>byte_offset.analyseCython\<close>),
  called with the payload and the expected size; \<open>shape\<close> is numpy's
  \<^verbatim>\<open>.astype(bytecode).reshape((dim2, dim1))\<close>.
\<close>

datatype np_dtype = Int8 | Int16 | Int32 | Int64

definition DATA_TYPES :: "string \<rightharpoonup> np_dtype" where
  "DATA_TYPES = map_of
     [(''signed 8-bit integer'', Int8),
      (''signed 16-bit integer'', Int16),
      (''signed 32-bit integer'', Int32),
      (''signed 64-bit integer'', Int64)]"

definition STARTER :: string where
  "STARTER = [CHR 0x0C, CHR 0x1A, CHR 0x04, CHR 0xD5]"

text \<open>
  \<^verbatim>\<open>_readbinary_byte_offset(self, inStream)\<close>; \<open>header\<close>, \<open>dim1\<close> and \<open>dim2\<close> are the
  attributes of \<^verbatim>\<open>self\<close> it reads.
\<close>

definition readbinary_byte_offset ::
  "(string \<Rightarrow> int option) \<Rightarrow> (string \<Rightarrow> int \<Rightarrow> py_error + 'a list) \<Rightarrow>
   (string \<rightharpoonup> string) \<Rightarrow> int \<Rightarrow> int \<Rightarrow> string \<Rightarrow> py_error + 'a list" where
  "readbinary_byte_offset to_int dec header dim1 dim2 inStream =
     (let startPos = py_find inStream STARTER + 4 in
      case header ''X-Binary-Size'' of
        None \<Rightarrow> Inl (KeyError ''X-Binary-Size'')
      | Some v \<Rightarrow>
          (case to_int v of
             None \<Rightarrow> Inl ValueError
           | Some binary_size \<Rightarrow>
               (let data = py_slice inStream startPos (startPos + binary_size) in
                case dec data (dim1 * dim2) of
                  Inl e \<Rightarrow> Inl e
                | Inr myData \<Rightarrow>
                    if int (length myData) = dim1 * dim2 then Inr myData
                    else Inl AssertionError)))"

text \<open>
  The \<^verbatim>\<open>try\<close> block of \<^verbatim>\<open>read\<close> that computes the image size; the bare \<^verbatim>\<open>except\<close>
  catches the missing key and the failed conversion alike, so both are \<open>None\<close> here.
\<close>

definition read_dims :: "(string \<Rightarrow> int option) \<Rightarrow> (string \<rightharpoonup> string) \<Rightarrow> (int \<times> int) option" where
  "read_dims to_int header =
     (case header ''X-Binary-Size-Fastest-Dimension'' of
        None \<Rightarrow> None
      | Some v1 \<Rightarrow>
          (case to_int v1 of
             None \<Rightarrow> None
           | Some dim1 \<Rightarrow>
               (case header ''X-Binary-Size-Second-Dimension'' of
                  None \<Rightarrow> None
                | Some v2 \<Rightarrow>
                    (case to_int v2 of
                       None \<Rightarrow> None
                     | Some dim2 \<Rightarrow> Some (dim1, dim2)))))"

text \<open>The second \<^verbatim>\<open>try\<close> block: a \<^verbatim>\<open>KeyError\<close> of either lookup defaults to int32.\<close>

definition read_bytecode :: "(string \<rightharpoonup> string) \<Rightarrow> np_dtype" where
  "read_bytecode header =
     (case header ''X-Binary-Element-Type'' of
        None \<Rightarrow> Int32
      | Some t \<Rightarrow> (case DATA_TYPES t of None \<Rightarrow> Int32 | Some bytecode \<Rightarrow> bytecode))"

text \<open>
  \<^verbatim>\<open>read(self, fname)\<close> from the point where \<^verbatim>\<open>_readheader\<close> has returned: \<open>header\<close> is
  \<^verbatim>\<open>self.header\<close> and \<open>array_data\<close> is \<^verbatim>\<open>self.cif["_array_data.data"]\<close>, both left by
  \<^verbatim>\<open>_readheader\<close>. The result is \<^verbatim>\<open>self.data\<close>.
\<close>

definition read ::
  "(string \<Rightarrow> int option) \<Rightarrow> (string \<Rightarrow> int \<Rightarrow> py_error + 'a list) \<Rightarrow>
   (np_dtype \<Rightarrow> int \<Rightarrow> int \<Rightarrow> 'a list \<Rightarrow> py_error + 'img) \<Rightarrow>
   string \<Rightarrow> (string \<rightharpoonup> string) \<Rightarrow> string \<Rightarrow> py_error + 'img" where
  "read to_int dec shape fname header array_data =
     (case read_dims to_int header of
        None \<Rightarrow> Inl (Exception_IOError (''CBF file '' @ fname @ '' is corrupt, no dimensions in it''))
      | Some (dim1, dim2) \<Rightarrow>
          (let bytecode = read_bytecode header in
           case header ''conversions'' of
             None \<Rightarrow> Inl (KeyError ''conversions'')
           | Some conversions \<Rightarrow>
               if conversions = ''x-CBF_BYTE_OFFSET'' then
                 (case readbinary_byte_offset to_int dec header dim1 dim2 array_data of
                    Inl e \<Rightarrow> Inl e
                  | Inr myData \<Rightarrow> shape bytecode dim2 dim1 myData)
               else
                 Inl (Exception_IOError
                   ''Compression scheme not yet supported, please contact FABIO development team'')))"

text \<open>
  Instances of the parameters, for running the model on an input. \<open>py_int\<close> is \<^verbatim>\<open>int\<close> on
  a decimal literal: blanks around it, an optional sign, one digit or more.
\<close>

fun digits_value :: "nat \<Rightarrow> string \<Rightarrow> nat option" where
  "digits_value acc [] = Some acc"
| "digits_value acc (c # cs) =
     (case map_of (zip ''0123456789'' [0..<10]) c of
        None \<Rightarrow> None
      | Some d \<Rightarrow> digits_value (10 * acc + d) cs)"

definition py_int :: "string \<Rightarrow> int option" where
  "py_int s =
     (case py_strip s of
        [] \<Rightarrow> None
      | c # cs \<Rightarrow>
          if c = CHR ''-'' then (if cs = [] then None else map_option (\<lambda>n. - int n) (digits_value 0 cs))
          else if c = CHR ''+'' then (if cs = [] then None else map_option int (digits_value 0 cs))
          else map_option int (digits_value 0 (c # cs)))"

text \<open>The decoder of the codec section on the bytes of a Python string.\<close>

definition dec_byte_offset :: "string \<Rightarrow> int \<Rightarrow> py_error + sample list" where
  "dec_byte_offset data expected = decode (map of_char data) (nat expected)"

text \<open>
  \<^verbatim>\<open>.astype(bytecode)\<close> on a 64-bit sample: numpy keeps the low bits of the element
  width and reads them as signed.
\<close>

definition astype :: "np_dtype \<Rightarrow> sample \<Rightarrow> sample" where
  "astype bytecode x =
     (case bytecode of
        Int8 \<Rightarrow> signed_take_bit 7 x
      | Int16 \<Rightarrow> signed_take_bit 15 x
      | Int32 \<Rightarrow> signed_take_bit 31 x
      | Int64 \<Rightarrow> x)"

text \<open>\<^verbatim>\<open>.reshape((dim2, dim1))\<close>: \<open>dim2\<close> rows of \<open>dim1\<close> samples.\<close>

fun rows_of :: "nat \<Rightarrow> nat \<Rightarrow> 'a list \<Rightarrow> 'a list list" where
  "rows_of 0 dim1 xs = []"
| "rows_of (Suc n) dim1 xs = take dim1 xs # rows_of n dim1 (drop dim1 xs)"

text \<open>
  \<^verbatim>\<open>.astype(bytecode).reshape((dim2, dim1))\<close> where it is called in \<^verbatim>\<open>read\<close>, after the
  assertion that the number of samples is \<open>dim1 * dim2\<close>: the samples are cast, then cut
  into rows; the element type is kept beside them. A shape that does not hold the samples,
  or has a negative dimension, raises.
\<close>

definition np_shape ::
  "np_dtype \<Rightarrow> int \<Rightarrow> int \<Rightarrow> sample list \<Rightarrow> py_error + np_dtype \<times> sample list list" where
  "np_shape bytecode dim2 dim1 xs =
     (if dim1 < 0 \<or> dim2 < 0 \<or> int (length xs) \<noteq> dim2 * dim1 then Inl ValueError
      else Inr (bytecode, rows_of (nat dim2) (nat dim1) (map (astype bytecode) xs)))"


section \<open>The order of the keys of a document\<close>

lemma index_of_append: "x \<in> set xs \<Longrightarrow> index_of x (xs @ ys) = index_of x xs"
  by (induction xs) auto

lemma index_of_mem: "x \<in> set xs \<Longrightarrow> index_of x xs \<noteq> None"
  by (induction xs) auto

lemma count_list_distinct: "distinct xs \<Longrightarrow> x \<in> set xs \<Longrightarrow> count_list xs x = 1"
  by (induction xs) auto

lemma setitem_distinct: "distinct (ordered c) \<Longrightarrow> distinct (ordered (setitem k v c))"
  by (simp add: setitem_def)

lemma setitem_index_of:
  "k \<in> set (ordered c) \<Longrightarrow> index_of k (ordered (setitem k' v c)) = index_of k (ordered c)"
  by (simp add: setitem_def index_of_append)

lemma setitem_mem: "k \<in> set (ordered c) \<Longrightarrow> k \<in> set (ordered (setitem k' v c))"
  by (simp add: setitem_def)

text \<open>
  A document made by the constructor and assignments has no key twice in \<^verbatim>\<open>_ordered\<close>.
\<close>

lemma setitems_distinct:
  "distinct (ordered c) \<Longrightarrow> distinct (ordered (foldl (\<lambda>d (k', v'). setitem k' v' d) c ops))"
  by (induction ops arbitrary: c) (auto simp: setitem_distinct)

lemma CIF_init_setitems_distinct:
  "distinct (ordered (foldl (\<lambda>d (k', v'). setitem k' v' d) CIF_init ops))"
  by (rule setitems_distinct) (simp add: CIF_init_def)

lemma setitems_keep:
  "distinct (ordered c) \<Longrightarrow> k \<in> set (ordered c) \<Longrightarrow>
   distinct (ordered (foldl (\<lambda>d (k', v'). setitem k' v' d) c ops)) \<and>
   k \<in> set (ordered (foldl (\<lambda>d (k', v'). setitem k' v' d) c ops)) \<and>
   index_of k (ordered (foldl (\<lambda>d (k', v'). setitem k' v' d) c ops)) = index_of k (ordered c)"
proof (induction ops arbitrary: c)
  case Nil
  then show ?case by simp
next
  case (Cons p ops)
  obtain k' v' where p: "p = (k', v')" by (cases p)
  have "distinct (ordered (setitem k' v' c))" "k \<in> set (ordered (setitem k' v' c))"
    using Cons.prems by (simp_all add: setitem_distinct setitem_mem)
  from Cons.IH [OF this] show ?case
    using Cons.prems by (simp add: p setitem_index_of)
qed

text \<open>
  C9. In a document whose recorded order has no key twice, assign \<open>v1\<close> to the key \<open>k\<close>,
  then make any assignments \<open>ops\<close> (none, for two assignments in a row), then assign \<open>v2\<close>
  to \<open>k\<close>. The lookup of \<open>k\<close> gives \<open>v2\<close>, \<open>k\<close> is at the position in the recorded order
  that it had after the first assignment, and it occurs there exactly once.
\<close>

theorem setitem_again_keeps_position:
  assumes "distinct (ordered c)"
    and "c1 = setitem k v1 c"
    and "c2 = foldl (\<lambda>d (k', v'). setitem k' v' d) c1 ops"
    and "c3 = setitem k v2 c2"
  shows "items c3 k = Some v2 \<and>
         index_of k (ordered c1) \<noteq> None \<and>
         index_of k (ordered c3) = index_of k (ordered c1) \<and>
         count_list (ordered c3) k = 1"
proof -
  have d1: "distinct (ordered c1)" and m1: "k \<in> set (ordered c1)"
    using assms(1,2) by (simp_all add: setitem_def)
  from setitems_keep [OF d1 m1, of ops]
  have d2: "distinct (ordered c2)" and m2: "k \<in> set (ordered c2)"
    and i2: "index_of k (ordered c2) = index_of k (ordered c1)"
    using assms(3) by simp_all
  have "items c3 k = Some v2" using assms(4) by (simp add: setitem_def)
  moreover have "index_of k (ordered c1) \<noteq> None" using m1 by (rule index_of_mem)
  moreover have "index_of k (ordered c3) = index_of k (ordered c1)"
    using assms(4) m2 i2 by (simp add: setitem_index_of)
  moreover have "count_list (ordered c3) k = 1"
    using assms(4) d2 m2 by (simp add: count_list_distinct setitem_distinct setitem_mem)
  ultimately show ?thesis by simp
qed

text \<open>
  The theorem at the document \<^verbatim>\<open>{_x: "0"}\<close>: \<^verbatim>\<open>_a\<close> is set to 1, \<^verbatim>\<open>_b\<close> to 2, then
  \<^verbatim>\<open>_a\<close> to 3, and stays at position 1.
\<close>

theorem setitem_again_keeps_position_witness:
  "distinct (ordered (setitem ''_x'' ''0'' CIF_init)) \<and>
   items (setitem ''_a'' ''3'' (setitem ''_b'' ''2'' (setitem ''_a'' ''1''
     (setitem ''_x'' ''0'' CIF_init)))) ''_a'' = Some ''3'' \<and>
   index_of ''_a'' (ordered (setitem ''_a'' ''1'' (setitem ''_x'' ''0'' CIF_init))) = Some 1 \<and>
   index_of ''_a'' (ordered (setitem ''_a'' ''3'' (setitem ''_b'' ''2'' (setitem ''_a'' ''1''
     (setitem ''_x'' ''0'' CIF_init))))) = Some 1 \<and>
   count_list (ordered (setitem ''_a'' ''3'' (setitem ''_b'' ''2'' (setitem ''_a'' ''1''
     (setitem ''_x'' ''0'' CIF_init))))) ''_a'' = 1"
  using setitem_again_keeps_position
    [of "setitem ''_x'' ''0'' CIF_init" _ "''_a''" "''1''" _ "[(''_b'', ''2'')]" _ "''3''",
     OF _ refl refl refl]
  by (simp add: setitem_def CIF_init_def)


section \<open>The round trip of the byte-offset codec\<close>

lemma length_le_bytes [simp]: "length (le_bytes n w) = n"
  by (induction n arbitrary: w) auto

text \<open>Reassembling the \<open>n\<close> low bytes of a value gives its \<open>8 n\<close> low bits.\<close>

lemma le_word_le_bytes: "le_word (le_bytes n w) = take_bit (8 * n) w"
proof (induction n arbitrary: w)
  case 0
  then show ?case by simp
next
  case (Suc n)
  show ?case
    apply (simp add: Suc)
    apply (rule bit_eqI)
    apply (auto simp add: bit_simps)
    done
qed

text \<open>A value that fits in \<open>n\<close> bytes is its own sign extension from \<open>8 n\<close> bits.\<close>

lemma fits_signed_take_bit:
  assumes "fits n d"
  shows "signed_take_bit (8 * n - 1) d = d"
proof -
  have "signed_take_bit (8 * n - 1) (sint d) = sint d"
    using assms by (simp add: fits_def signed_take_bit_int_eq_self)
  then have "signed_take_bit (8 * n - 1) (word_of_int (sint d) :: sample) = word_of_int (sint d)"
    by (simp only: signed_take_bit_of_int)
  then show ?thesis by simp
qed

lemma read_signed_le_bytes:
  assumes "fits n d" "0 < n"
  shows "read_signed n (le_bytes n d @ rest) = Some (d, rest)"
proof -
  have "\<not> 8 * n \<le> 8 * n - 1" using assms(2) by arith
  then have "signed_take_bit (8 * n - 1) (take_bit (8 * n) d) = signed_take_bit (8 * n - 1) d"
    by (simp only: signed_take_bit_take_bit if_False)
  then show ?thesis
    using fits_signed_take_bit [OF assms(1)]
    by (simp add: read_signed_def le_word_le_bytes)
qed

lemma fits8: "fits 8 d"
  using sint_ge [of d] sint_lt [of d] by (simp add: fits_def)

lemma read_esc:
  "read_signed 1 (le_bytes 1 (- 128) @ rest) = Some (- 128, rest)"
  "read_signed 2 (le_bytes 2 (- 32768) @ rest) = Some (- 32768, rest)"
  "read_signed 4 (le_bytes 4 (- 2147483648) @ rest) = Some (- 2147483648, rest)"
  by (rule read_signed_le_bytes, simp add: fits_def, simp)+

text \<open>The decoder reads back the delta that the encoder wrote, whatever follows it.\<close>

lemma read_delta_encode_delta: "read_delta (encode_delta d @ rest) = Some (d, rest)"
proof -
  have r1: "fits 1 d \<Longrightarrow> read_signed 1 (le_bytes 1 d @ rest) = Some (d, rest)"
    and r2: "fits 2 d \<Longrightarrow> read_signed 2 (le_bytes 2 d @ rest) = Some (d, rest)"
    and r4: "fits 4 d \<Longrightarrow> read_signed 4 (le_bytes 4 d @ rest) = Some (d, rest)"
    and r8: "read_signed 8 (le_bytes 8 d @ rest) = Some (d, rest)"
    by (rule read_signed_le_bytes, simp_all add: fits8)+
  consider (a) "fits 1 d \<and> d \<noteq> - 128"
    | (b) "\<not> (fits 1 d \<and> d \<noteq> - 128)" "fits 2 d \<and> d \<noteq> - 32768"
    | (c) "\<not> (fits 1 d \<and> d \<noteq> - 128)" "\<not> (fits 2 d \<and> d \<noteq> - 32768)"
          "fits 4 d \<and> d \<noteq> - 2147483648"
    | (d) "\<not> (fits 1 d \<and> d \<noteq> - 128)" "\<not> (fits 2 d \<and> d \<noteq> - 32768)"
          "\<not> (fits 4 d \<and> d \<noteq> - 2147483648)"
    by blast
  then show ?thesis
  proof cases
    case a
    then have "encode_delta d = le_bytes 1 d"
      by (simp only: encode_delta_def if_True if_False simp_thms)
    with a show ?thesis
      by (simp only: read_delta_def r1 option.case prod.case if_True if_False simp_thms)
  next
    case b
    then have "encode_delta d = le_bytes 1 (- 128) @ le_bytes 2 d"
      by (simp only: encode_delta_def if_True if_False simp_thms)
    with b show ?thesis
      by (simp only: read_delta_def append_assoc read_esc r2 option.case prod.case
          if_True if_False simp_thms)
  next
    case c
    then have "encode_delta d = le_bytes 1 (- 128) @ le_bytes 2 (- 32768) @ le_bytes 4 d"
      by (simp only: encode_delta_def if_True if_False simp_thms)
    with c show ?thesis
      by (simp only: read_delta_def append_assoc read_esc r4 option.case prod.case
          if_True if_False simp_thms)
  next
    case d
    then have "encode_delta d =
        le_bytes 1 (- 128) @ le_bytes 2 (- 32768) @ le_bytes 4 (- 2147483648) @ le_bytes 8 d"
      by (simp only: encode_delta_def if_True if_False simp_thms)
    then show ?thesis
      by (simp only: read_delta_def append_assoc read_esc r8 option.case prod.case
          if_True if_False simp_thms)
  qed
qed

lemma decode_loop_encode_from:
  "decode_loop (length xs) previous (encode_from previous xs) = Inr xs"
  by (induction xs arbitrary: previous) (simp_all add: read_delta_encode_delta)

text \<open>
  C1. Codec round trip: for every finite sequence \<open>xs\<close> of signed 64-bit integers,
  decoding the encoded byte stream with the expected count \<open>length xs\<close> succeeds and gives
  \<open>xs\<close> back. The sequence is arbitrary, so it may hold the escape values \<open>-128\<close>,
  \<open>-32768\<close>, \<open>INT32_MIN\<close> and their neighbours, as values or as differences.
\<close>

theorem codec_round_trip: "decode (encode xs) (length xs) = Inr xs"
  by (simp add: decode_def encode_def decode_loop_encode_from)

text \<open>
  The bytes of the scenario of the specification: the deltas 0, 1, -2 take one byte each
  and 201 takes the 16-bit escape.
\<close>

lemma encode_small_vector: "encode [0, 1, - 1, 200] = [0x00, 0x01, 0xFE, 0x80, 0xC9, 0x00]"
  by code_simp

text \<open>The encodings at the escape boundaries.\<close>

lemma encode_escape_boundaries:
  "encode [- 128] = [0x80, 0x80, 0xFF]"
  "encode [127] = [0x7F]"
  "encode [- 32768] = [0x80, 0x00, 0x80, 0x00, 0x80, 0xFF, 0xFF]"
  "encode [32767] = [0x80, 0xFF, 0x7F]"
  "encode [- 2147483648] =
     [0x80, 0x00, 0x80, 0x00, 0x00, 0x00, 0x80, 0x00, 0x00, 0x00, 0x80, 0xFF, 0xFF, 0xFF, 0xFF]"
  "encode [2147483647] = [0x80, 0x00, 0x80, 0xFF, 0xFF, 0xFF, 0x7F]"
  by code_simp+

text \<open>
  The round trip read on mathematical integers: a list of integers in the signed 64-bit
  range, taken to samples, encoded, decoded and read as signed, is the list itself.
\<close>

lemma codec_round_trip_int:
  assumes "\<forall>x \<in> set xs. - (2 ^ 63) \<le> x \<and> x < 2 ^ 63"
  shows "map_sum id (map sint) (decode (encode (map word_of_int xs)) (length xs)) = Inr (xs :: int list)"
proof -
  have "map sint (map word_of_int xs :: sample list) = xs"
    using assms by (induction xs) (simp_all add: sint_sbintrunc' signed_take_bit_int_eq_self)
  moreover have "decode (encode (map word_of_int xs :: sample list)) (length xs) = Inr (map word_of_int xs)"
    using decode_loop_encode_from [of "map word_of_int xs" 0]
    by (simp add: decode_def encode_def)
  ultimately show ?thesis by simp
qed


section \<open>The partition of a loop into records\<close>


text \<open>
  The inner loop over the keys, when the data reaches far enough: it does not raise, moves
  \<open>k\<close> past the keys, and the record holds each key with the value of its position.
\<close>

lemma fill_full_ok:
  "k + length keys \<le> length data \<Longrightarrow>
   \<exists>e'. fill_full keys data k e = Inr (e', k + length keys) \<and>
        dom e' = dom e \<union> set keys \<and>
        (\<forall>x. x \<notin> set keys \<longrightarrow> e' x = e x) \<and>
        (\<forall>j<length keys. keys ! j \<notin> set (drop (Suc j) keys) \<longrightarrow>
           e' (keys ! j) = Some (data ! (k + j)))"
proof (induction keys arbitrary: k e)
  case Nil
  then show ?case by simp
next
  case (Cons a keys)
  let ?e = "e(a \<mapsto> data ! k)"
  from Cons.prems have le: "(k + 1) + length keys \<le> length data" and lt: "k < length data"
    by simp_all
  from Cons.IH [OF le, of ?e] obtain e' where
    r: "fill_full keys data (k + 1) ?e = Inr (e', k + 1 + length keys)"
    and d: "dom e' = dom ?e \<union> set keys"
    and o: "\<forall>x. x \<notin> set keys \<longrightarrow> e' x = ?e x"
    and v: "\<forall>j<length keys. keys ! j \<notin> set (drop (Suc j) keys) \<longrightarrow>
           e' (keys ! j) = Some (data ! (k + 1 + j))"
    by blast
  have "fill_full (a # keys) data k e = Inr (e', k + length (a # keys))"
    using r lt by simp
  moreover have "dom e' = dom e \<union> set (a # keys)" using d by auto
  moreover have "\<forall>x. x \<notin> set (a # keys) \<longrightarrow> e' x = e x" using o by auto
  moreover have "\<forall>j<length (a # keys). (a # keys) ! j \<notin> set (drop (Suc j) (a # keys)) \<longrightarrow>
           e' ((a # keys) ! j) = Some (data ! (k + j))"
  proof (intro allI impI)
    fix j assume j: "j < length (a # keys)"
      and nd: "(a # keys) ! j \<notin> set (drop (Suc j) (a # keys))"
    show "e' ((a # keys) ! j) = Some (data ! (k + j))"
    proof (cases j)
      case 0
      with nd have "a \<notin> set keys" by simp
      with o have "e' a = ?e a" by blast
      with 0 show ?thesis by simp
    next
      case (Suc j')
      with j nd v show ?thesis by simp
    qed
  qed
  ultimately show ?case by blast
qed

lemma full_records_ok:
  "k0 + n * length keys \<le> length data \<Longrightarrow>
   \<exists>loop. full_records n keys data k0 = Inr loop \<and> length loop = n \<and>
     (\<forall>m<n. dom (loop ! m) = set keys \<and>
        (\<forall>j<length keys. keys ! j \<notin> set (drop (Suc j) keys) \<longrightarrow>
           (loop ! m) (keys ! j) = Some (data ! (k0 + m * length keys + j))))"
proof (induction n arbitrary: k0)
  case 0
  then show ?case by simp
next
  case (Suc n)
  from Suc.prems have le1: "k0 + length keys \<le> length data"
    and le2: "(k0 + length keys) + n * length keys \<le> length data" by simp_all
  from fill_full_ok [OF le1, of Map.empty] obtain e' where
    r: "fill_full keys data k0 Map.empty = Inr (e', k0 + length keys)"
    and d: "dom e' = set keys"
    and v: "\<forall>j<length keys. keys ! j \<notin> set (drop (Suc j) keys) \<longrightarrow>
           e' (keys ! j) = Some (data ! (k0 + j))"
    by auto
  from Suc.IH [OF le2] obtain loop where
    l: "full_records n keys data (k0 + length keys) = Inr loop" and n: "length loop = n"
    and p: "\<forall>m<n. dom (loop ! m) = set keys \<and>
        (\<forall>j<length keys. keys ! j \<notin> set (drop (Suc j) keys) \<longrightarrow>
           (loop ! m) (keys ! j) = Some (data ! (k0 + length keys + m * length keys + j)))"
    by blast
  have "full_records (Suc n) keys data k0 = Inr (e' # loop)" using r l by simp
  moreover have "length (e' # loop) = Suc n" using n by simp
  moreover have "\<forall>m<Suc n. dom ((e' # loop) ! m) = set keys \<and>
        (\<forall>j<length keys. keys ! j \<notin> set (drop (Suc j) keys) \<longrightarrow>
           ((e' # loop) ! m) (keys ! j) = Some (data ! (k0 + m * length keys + j)))"
  proof (intro allI impI)
    fix m assume m: "m < Suc n"
    show "dom ((e' # loop) ! m) = set keys \<and>
        (\<forall>j<length keys. keys ! j \<notin> set (drop (Suc j) keys) \<longrightarrow>
           ((e' # loop) ! m) (keys ! j) = Some (data ! (k0 + m * length keys + j)))"
    proof (cases m)
      case 0
      with d v show ?thesis by simp
    next
      case (Suc m')
      with m have "m' < n" by simp
      with p Suc show ?thesis by (simp add: add.assoc add.left_commute)
    qed
  qed
  ultimately show ?case by blast
qed

lemma fill_padded_ok:
  "dom (fill_padded keys data k e) = dom e \<union> set keys \<and>
   (\<forall>x. x \<notin> set keys \<longrightarrow> fill_padded keys data k e x = e x) \<and>
   (\<forall>j<length keys. keys ! j \<notin> set (drop (Suc j) keys) \<longrightarrow>
      fill_padded keys data k e (keys ! j) =
        Some (if k + j < length data then data ! (k + j) else ''?''))"
proof (induction keys arbitrary: k e)
  case Nil
  then show ?case by simp
next
  case (Cons a keys)
  define val where "val = (if k < length data then data ! k else ''?'')"
  let ?e = "e(a \<mapsto> val)"
  have step: "fill_padded (a # keys) data k e = fill_padded keys data (k + 1) ?e"
    by (simp add: val_def)
  from Cons.IH [of "k + 1" ?e]
  have d: "dom (fill_padded keys data (k + 1) ?e) = dom ?e \<union> set keys"
    and o: "\<forall>x. x \<notin> set keys \<longrightarrow> fill_padded keys data (k + 1) ?e x = ?e x"
    and v: "\<forall>j<length keys. keys ! j \<notin> set (drop (Suc j) keys) \<longrightarrow>
      fill_padded keys data (k + 1) ?e (keys ! j) =
        Some (if k + 1 + j < length data then data ! (k + 1 + j) else ''?'')"
    by blast+
  have "dom (fill_padded (a # keys) data k e) = dom e \<union> set (a # keys)"
    unfolding step d by simp
  moreover have "\<forall>x. x \<notin> set (a # keys) \<longrightarrow> fill_padded (a # keys) data k e x = e x"
    unfolding step using o by simp
  moreover have "\<forall>j<length (a # keys). (a # keys) ! j \<notin> set (drop (Suc j) (a # keys)) \<longrightarrow>
      fill_padded (a # keys) data k e ((a # keys) ! j) =
        Some (if k + j < length data then data ! (k + j) else ''?'')"
  proof (intro allI impI)
    fix j assume j: "j < length (a # keys)"
      and nd: "(a # keys) ! j \<notin> set (drop (Suc j) (a # keys))"
    show "fill_padded (a # keys) data k e ((a # keys) ! j) =
        Some (if k + j < length data then data ! (k + j) else ''?'')"
    proof (cases j)
      case 0
      with nd have "a \<notin> set keys" by simp
      with o have "fill_padded keys data (k + 1) ?e a = ?e a" by blast
      with 0 show ?thesis unfolding step by (simp add: val_def)
    next
      case (Suc j')
      with j nd v show ?thesis unfolding step by simp
    qed
  qed
  ultimately show ?case by blast
qed

text \<open>
  The partition in terms of what the two scans of \<^verbatim>\<open>_analyseOneLoop\<close> return. A record
  is a dict, so where a key is written twice in the key list the later position holds
  the entry.
\<close>

lemma loop_partition_of_scans:
  assumes "scan_keys (drop (iStart + 1) lFields) = Inr (keys, rest)"
    and "scan_data rest = data"
    and "1 \<le> length keys" and "1 \<le> n" and "length data = length keys * n"
  shows "\<exists>loop. analyseOneLoop lFields iStart = Inr (loop, 1 + length keys + length data, keys) \<and>
           length loop = n \<and>
           (\<forall>m<n. dom (loop ! m) = set keys \<and>
              (\<forall>j<length keys. keys ! j \<notin> set (drop (Suc j) keys) \<longrightarrow>
                 (loop ! m) (keys ! j) = Some (data ! (m * length keys + j))))"
proof -
  obtain n' where n': "n = Suc n'" using assms(4) by (cases n) auto
  have nlt: "\<not> length data < length keys" using assms(5) by (simp add: n')
  have kne: "length keys \<noteq> 0" using assms(3) by arith
  have dv: "length data div length keys = n" using kne assms(5) by simp
  have "0 + n * length keys \<le> length data" using assms(5) by (simp add: mult.commute)
  from full_records_ok [OF this] obtain loop where
    l: "full_records n keys data 0 = Inr loop" and n: "length loop = n"
    and p: "\<forall>m<n. dom (loop ! m) = set keys \<and>
        (\<forall>j<length keys. keys ! j \<notin> set (drop (Suc j) keys) \<longrightarrow>
           (loop ! m) (keys ! j) = Some (data ! (0 + m * length keys + j)))"
    by blast
  have "partition_loop keys data = Inr loop"
    using nlt dv l kne by (simp add: partition_loop_def)
  then have "analyseOneLoop lFields iStart = Inr (loop, 1 + length keys + length data, keys)"
    using assms(1,2) by (simp add: analyseOneLoop_def)
  with n p show ?thesis by simp
qed

lemma loop_fallback_of_scans:
  assumes "scan_keys (drop (iStart + 1) lFields) = Inr (keys, rest)"
    and "scan_data rest = data"
  shows "(length data < length keys \<longrightarrow>
           (\<exists>r. analyseOneLoop lFields iStart = Inr ([r], 1 + length keys + length data, keys) \<and>
              dom r = set keys \<and>
              (\<forall>j<length keys. keys ! j \<notin> set (drop (Suc j) keys) \<longrightarrow>
                 r (keys ! j) = Some (if j < length data then data ! j else ''?'')))) \<and>
         (1 \<le> length keys \<and> length keys \<le> length data \<longrightarrow>
           (\<exists>loop. analyseOneLoop lFields iStart = Inr (loop, 1 + length keys + length data, keys) \<and>
              length loop = length data div length keys \<and>
              (\<forall>m<length loop. dom (loop ! m) = set keys \<and>
                 (\<forall>j<length keys. keys ! j \<notin> set (drop (Suc j) keys) \<longrightarrow>
                    (loop ! m) (keys ! j) = Some (data ! (m * length keys + j))))))"
proof (intro conjI impI)
  assume lt: "length data < length keys"
  let ?r = "fill_padded keys data 0 Map.empty"
  have "analyseOneLoop lFields iStart = Inr ([?r], 1 + length keys + length data, keys)"
    using assms lt by (simp add: analyseOneLoop_def partition_loop_def)
  moreover have "dom ?r = set keys" using fill_padded_ok [of keys data 0 Map.empty] by simp
  moreover have "\<forall>j<length keys. keys ! j \<notin> set (drop (Suc j) keys) \<longrightarrow>
                 ?r (keys ! j) = Some (if j < length data then data ! j else ''?'')"
    using fill_padded_ok [of keys data 0 Map.empty] by simp
  ultimately show "\<exists>r. analyseOneLoop lFields iStart = Inr ([r], 1 + length keys + length data, keys) \<and>
              dom r = set keys \<and>
              (\<forall>j<length keys. keys ! j \<notin> set (drop (Suc j) keys) \<longrightarrow>
                 r (keys ! j) = Some (if j < length data then data ! j else ''?''))"
    by blast
next
  assume h: "1 \<le> length keys \<and> length keys \<le> length data"
  let ?n = "length data div length keys"
  have "0 + ?n * length keys \<le> length data" by simp
  from full_records_ok [OF this] obtain loop where
    l: "full_records ?n keys data 0 = Inr loop" and n: "length loop = ?n"
    and p: "\<forall>m<?n. dom (loop ! m) = set keys \<and>
        (\<forall>j<length keys. keys ! j \<notin> set (drop (Suc j) keys) \<longrightarrow>
           (loop ! m) (keys ! j) = Some (data ! (0 + m * length keys + j)))"
    by blast
  have kne: "length keys \<noteq> 0" and nlt: "\<not> length data < length keys" using h by arith+
  have "partition_loop keys data = Inr loop"
    using kne nlt l by (simp add: partition_loop_def)
  then have "analyseOneLoop lFields iStart = Inr (loop, 1 + length keys + length data, keys)"
    using assms(1,2) by (simp add: analyseOneLoop_def)
  with n p show "\<exists>loop. analyseOneLoop lFields iStart = Inr (loop, 1 + length keys + length data, keys) \<and>
              length loop = length data div length keys \<and>
              (\<forall>m<length loop. dom (loop ! m) = set keys \<and>
                 (\<forall>j<length keys. keys ! j \<notin> set (drop (Suc j) keys) \<longrightarrow>
                    (loop ! m) (keys ! j) = Some (data ! (m * length keys + j))))"
    by simp
qed

text \<open>
  The two scans on a loop as it is written: keys, each beginning with \<^verbatim>\<open>_\<close>, then
  values, none of them empty, a key or a keyword, then the end of the fields or a field
  that stops the data scan. The scans give back these keys and these values.
\<close>

lemma scan_keys_fields:
  assumes "\<forall>k \<in> set keys. k \<noteq> [] \<and> k ! 0 = CHR ''_''"
    and "f \<noteq> []" "f ! 0 \<noteq> CHR ''_''"
  shows "scan_keys (keys @ f # rest) = Inr (keys, f # rest)"
  using assms
proof (induction keys)
  case Nil
  then show ?case by (cases f) (auto simp: py_index_def)
next
  case (Cons k keys)
  then show ?case by (cases k) (auto simp: py_index_def)
qed

lemma scan_data_fields:
  assumes "\<forall>d \<in> set data. d \<noteq> [] \<and> d ! 0 \<noteq> CHR ''_'' \<and>
             d \<notin> set [''loop_'', ''stop_'', ''global_'', ''data_'', ''save_'']"
    and "rest = [] \<or> hd rest = [] \<or> hd rest ! 0 = CHR ''_'' \<or>
         hd rest \<in> set [''loop_'', ''stop_'', ''global_'', ''data_'', ''save_'']"
  shows "scan_data (data @ rest) = data"
  using assms
proof (induction data)
  case Nil
  then show ?case by (cases rest) auto
next
  case (Cons d data)
  then show ?case by simp
qed

lemma scans_of_written_loop:
  assumes "\<forall>k \<in> set keys. k \<noteq> [] \<and> k ! 0 = CHR ''_''"
    and "\<forall>d \<in> set data. d \<noteq> [] \<and> d ! 0 \<noteq> CHR ''_'' \<and> d \<notin> set [''loop_'', ''stop_'', ''global_'', ''data_'', ''save_'']"
    and "rest = [] \<or> hd rest = [] \<or> hd rest ! 0 = CHR ''_'' \<or> hd rest \<in> set [''loop_'', ''stop_'', ''global_'', ''data_'', ''save_'']"
    and "data \<noteq> []"
  shows "scan_keys (drop (length pre + 1) (pre @ lp # keys @ data @ rest)) = Inr (keys, data @ rest)"
    and "scan_data (data @ rest) = data"
proof -
  obtain f fs where d: "data = f # fs" using assms(4) by (cases data) auto
  have "f \<noteq> []" "f ! 0 \<noteq> CHR ''_''" using assms(2) d by auto
  from scan_keys_fields [OF assms(1) this, of "fs @ rest"]
  show "scan_keys (drop (length pre + 1) (pre @ lp # keys @ data @ rest)) = Inr (keys, data @ rest)"
    by (simp add: d)
  show "scan_data (data @ rest) = data"
    using assms(2,3) by (rule scan_data_fields)
qed

lemma distinct_nth_not_later:
  assumes "distinct keys" "j < length keys"
  shows "keys ! j \<notin> set (drop (Suc j) keys)"
proof -
  have "keys = take j keys @ keys ! j # drop (Suc j) keys"
    using assms(2) by (rule id_take_nth_drop)
  then have "distinct (take j keys @ keys ! j # drop (Suc j) keys)"
    using assms(1) by simp
  then show ?thesis by simp
qed

text \<open>
  C2, as amended. Let a loop be written in the field list as its opening field, then
  \<open>k \<ge> 1\<close> column keys, each beginning with \<^verbatim>\<open>_\<close> and no two the same, then exactly
  \<open>k * n\<close> data values, \<open>n \<ge> 1\<close>, none of them empty, beginning with \<^verbatim>\<open>_\<close> or a keyword,
  and then the end of the fields or a field that ends the data (an empty field, a field
  beginning with \<^verbatim>\<open>_\<close>, or a keyword). Then \<^verbatim>\<open>_analyseOneLoop\<close> returns, and it returns
  exactly \<open>n\<close> records; each record has all the \<open>k\<close> keys as its domain, and record \<open>m\<close>
  maps the key at position \<open>j\<close> to the data value at position \<open>m * k + j\<close>: the keys in
  order, to consecutive values.
\<close>

theorem loop_partition:
  assumes "lFields = pre @ lp # keys @ data @ rest"
    and "\<forall>k \<in> set keys. k \<noteq> [] \<and> k ! 0 = CHR ''_''"
    and "distinct keys"
    and "\<forall>d \<in> set data. d \<noteq> [] \<and> d ! 0 \<noteq> CHR ''_'' \<and> d \<notin> set [''loop_'', ''stop_'', ''global_'', ''data_'', ''save_'']"
    and "rest = [] \<or> hd rest = [] \<or> hd rest ! 0 = CHR ''_'' \<or> hd rest \<in> set [''loop_'', ''stop_'', ''global_'', ''data_'', ''save_'']"
    and "1 \<le> length keys" and "1 \<le> n" and "length data = length keys * n"
  shows "\<exists>loop. analyseOneLoop lFields (length pre) =
             Inr (loop, 1 + length keys + length data, keys) \<and>
           length loop = n \<and>
           (\<forall>m<n. dom (loop ! m) = set keys \<and>
              (\<forall>j<length keys. (loop ! m) (keys ! j) = Some (data ! (m * length keys + j))))"
proof -
  have "data \<noteq> []" using assms(6,7,8) by (cases n) auto
  then have k: "scan_keys (drop (length pre + 1) lFields) = Inr (keys, data @ rest)"
    and d: "scan_data (data @ rest) = data"
    unfolding assms(1)
    by (rule scans_of_written_loop(1) [OF assms(2,4,5)],
        rule scans_of_written_loop(2) [OF assms(2,4,5)])
  from loop_partition_of_scans [OF k d assms(6,7,8)] obtain loop where
    r: "analyseOneLoop lFields (length pre) = Inr (loop, 1 + length keys + length data, keys)"
    and n: "length loop = n"
    and p: "\<forall>m<n. dom (loop ! m) = set keys \<and>
              (\<forall>j<length keys. keys ! j \<notin> set (drop (Suc j) keys) \<longrightarrow>
                 (loop ! m) (keys ! j) = Some (data ! (m * length keys + j)))"
    by blast
  from p have "\<forall>m<n. dom (loop ! m) = set keys \<and>
              (\<forall>j<length keys. (loop ! m) (keys ! j) = Some (data ! (m * length keys + j)))"
    using distinct_nth_not_later [OF assms(3)] by blast
  with r n show ?thesis by blast
qed

text \<open>
  The amended law at the loop \<^verbatim>\<open>loop_ _a _b 1 2 3 4 5 6\<close>, written after the pair
  \<^verbatim>\<open>_x 0\<close> and before the pair \<^verbatim>\<open>_y 7\<close>: three records.
\<close>

theorem loop_partition_witness:
  "\<exists>loop. analyseOneLoop
       [''_x'', ''0'', ''loop_'', ''_a'', ''_b'', ''1'', ''2'', ''3'', ''4'', ''5'', ''6'', ''_y'', ''7''] 2 =
      Inr (loop, 9, [''_a'', ''_b'']) \<and> length loop = 3 \<and>
     (loop ! 0) ''_a'' = Some ''1'' \<and> (loop ! 0) ''_b'' = Some ''2'' \<and>
     (loop ! 1) ''_a'' = Some ''3'' \<and> (loop ! 1) ''_b'' = Some ''4'' \<and>
     (loop ! 2) ''_a'' = Some ''5'' \<and> (loop ! 2) ''_b'' = Some ''6''"
proof -
  have f: "[''_x'', ''0'', ''loop_'', ''_a'', ''_b'', ''1'', ''2'', ''3'', ''4'', ''5'', ''6'', ''_y'', ''7''] =
      [''_x'', ''0''] @ ''loop_'' # [''_a'', ''_b''] @ [''1'', ''2'', ''3'', ''4'', ''5'', ''6''] @ [''_y'', ''7'']"
    by simp
  have ks: "\<forall>k \<in> set [''_a'', ''_b'']. k \<noteq> [] \<and> k ! 0 = CHR ''_''" by simp
  have dk: "distinct [''_a'', ''_b'']" by simp
  have ds: "\<forall>d \<in> set [''1'', ''2'', ''3'', ''4'', ''5'', ''6''].
      d \<noteq> [] \<and> d ! 0 \<noteq> CHR ''_'' \<and> d \<notin> set [''loop_'', ''stop_'', ''global_'', ''data_'', ''save_'']" by simp
  have rs: "[''_y'', ''7''] = [] \<or> hd [''_y'', ''7''] = [] \<or> hd [''_y'', ''7''] ! 0 = CHR ''_'' \<or>
      hd [''_y'', ''7''] \<in> set [''loop_'', ''stop_'', ''global_'', ''data_'', ''save_'']" by simp
  from loop_partition [OF f ks dk ds rs, of 3] obtain loop where
    r: "analyseOneLoop
       [''_x'', ''0'', ''loop_'', ''_a'', ''_b'', ''1'', ''2'', ''3'', ''4'', ''5'', ''6'', ''_y'', ''7'']
       (length [''_x'', ''0'']) =
      Inr (loop, 1 + length [''_a'', ''_b''] + length [''1'', ''2'', ''3'', ''4'', ''5'', ''6''], [''_a'', ''_b''])"
    and n: "length loop = 3"
    and p: "\<forall>m<3. dom (loop ! m) = set [''_a'', ''_b''] \<and>
              (\<forall>j<length [''_a'', ''_b''].
                 (loop ! m) ([''_a'', ''_b''] ! j) =
                   Some ([''1'', ''2'', ''3'', ''4'', ''5'', ''6''] ! (m * length [''_a'', ''_b''] + j)))"
    by auto
  have v: "(loop ! m) ([''_a'', ''_b''] ! j) = Some ([''1'', ''2'', ''3'', ''4'', ''5'', ''6''] ! (m * 2 + j))"
    if "m < 3" "j < 2" for m j
    using p that by (simp add: mult_2_right)
  have l2: "length [''_x'', ''0''] = 2" by simp
  have l9: "1 + length [''_a'', ''_b''] + length [''1'', ''2'', ''3'', ''4'', ''5'', ''6''] = 9"
    by simp
  note r' = r [unfolded l2 l9]
  have "(loop ! 0) ''_a'' = Some ''1''" "(loop ! 0) ''_b'' = Some ''2''"
    "(loop ! 1) ''_a'' = Some ''3''" "(loop ! 1) ''_b'' = Some ''4''"
    "(loop ! 2) ''_a'' = Some ''5''" "(loop ! 2) ''_b'' = Some ''6''"
    using v [of 0 0] v [of 0 1] v [of 1 0] v [of 1 1] v [of 2 0] v [of 2 1] by simp_all
  with r' n show ?thesis by blast
qed

text \<open>
  The claim C2 as it was stated fails at two loops. In the first, two keys are followed by
  the four values \<^verbatim>\<open>1\<close>, the empty string, \<^verbatim>\<open>3\<close>, \<^verbatim>\<open>4\<close>: the data scan ends at the empty
  field, and the result is one record with a placeholder, not two records. In the second
  the key \<^verbatim>\<open>_a\<close> is written twice and followed by two values: the one record holds
  \<^verbatim>\<open>_a\<close> once, with the second value, and the first value is lost.
\<close>

theorem loop_partition_counterexample:
  "analyseOneLoop [''loop_'', ''_a'', ''_b'', ''1'', [], ''3'', ''4''] 0 =
     Inr ([[''_a'' \<mapsto> ''1'', ''_b'' \<mapsto> ''?'']], 4, [''_a'', ''_b'']) \<and>
   analyseOneLoop [''loop_'', ''_a'', ''_a'', ''1'', ''2''] 0 =
     Inr ([[''_a'' \<mapsto> ''2'']], 5, [''_a'', ''_a''])"
proof -
  have "length [''1'', ''2''] div length [''_a'', ''_a''] = Suc 0" by code_simp
  then have "partition_loop [''_a'', ''_a''] [''1'', ''2''] = Inr [[''_a'' \<mapsto> ''2'']]"
    by (simp add: partition_loop_def)
  then have "analyseOneLoop [''loop_'', ''_a'', ''_a'', ''1'', ''2''] 0 =
     Inr ([[''_a'' \<mapsto> ''2'']], 5, [''_a'', ''_a''])"
    by (simp add: analyseOneLoop_def py_index_def)
  moreover have "analyseOneLoop [''loop_'', ''_a'', ''_b'', ''1'', [], ''3'', ''4''] 0 =
     Inr ([[''_a'' \<mapsto> ''1'', ''_b'' \<mapsto> ''?'']], 4, [''_a'', ''_b''])"
    by (simp add: analyseOneLoop_def partition_loop_def py_index_def)
  ultimately show ?thesis by simp
qed

text \<open>
  C3, as amended. Let a loop be written in the field list as its opening field, then
  \<open>k\<close> column keys, each beginning with \<^verbatim>\<open>_\<close> and no two the same, then \<open>d\<close> data values,
  none of them empty, beginning with \<^verbatim>\<open>_\<close> or a keyword, and then the end of the fields or
  a field that ends the data. With \<open>1 \<le> d < k\<close>, \<^verbatim>\<open>_analyseOneLoop\<close> builds exactly one
  record, which has all the keys, maps the first \<open>d\<close> keys in order to the \<open>d\<close> data
  values, and maps the keys left to \<^verbatim>\<open>"?"\<close>. With \<open>d \<ge> k \<ge> 1\<close>, a multiple of \<open>k\<close> or
  not, it builds \<open>d div k\<close> full records from consecutive values, and no placeholder: the
  \<open>d mod k\<close> values left over are not used.
\<close>

theorem loop_fallback:
  assumes "lFields = pre @ lp # keys @ data @ rest"
    and "\<forall>k \<in> set keys. k \<noteq> [] \<and> k ! 0 = CHR ''_''"
    and "distinct keys"
    and "\<forall>d \<in> set data. d \<noteq> [] \<and> d ! 0 \<noteq> CHR ''_'' \<and> d \<notin> set [''loop_'', ''stop_'', ''global_'', ''data_'', ''save_'']"
    and "rest = [] \<or> hd rest = [] \<or> hd rest ! 0 = CHR ''_'' \<or> hd rest \<in> set [''loop_'', ''stop_'', ''global_'', ''data_'', ''save_'']"
  shows "(1 \<le> length data \<and> length data < length keys \<longrightarrow>
           (\<exists>r. analyseOneLoop lFields (length pre) =
                  Inr ([r], 1 + length keys + length data, keys) \<and>
              dom r = set keys \<and>
              (\<forall>j<length keys. r (keys ! j) = Some (if j < length data then data ! j else ''?'')))) \<and>
         (1 \<le> length keys \<and> length keys \<le> length data \<longrightarrow>
           (\<exists>loop. analyseOneLoop lFields (length pre) =
                  Inr (loop, 1 + length keys + length data, keys) \<and>
              length loop = length data div length keys \<and>
              (\<forall>m<length loop. dom (loop ! m) = set keys \<and>
                 (\<forall>j<length keys. (loop ! m) (keys ! j) = Some (data ! (m * length keys + j))))))"
proof -
  have scans: "scan_keys (drop (length pre + 1) lFields) = Inr (keys, data @ rest) \<and>
      scan_data (data @ rest) = data" if "data \<noteq> []"
    unfolding assms(1)
    using scans_of_written_loop(1) [OF assms(2,4,5) that]
      scans_of_written_loop(2) [OF assms(2,4,5) that]
    by simp
  note later = distinct_nth_not_later [OF assms(3)]
  show ?thesis
  proof (intro conjI impI)
    assume h: "1 \<le> length data \<and> length data < length keys"
    then have "data \<noteq> []" by auto
    from scans [OF this] have k: "scan_keys (drop (length pre + 1) lFields) = Inr (keys, data @ rest)"
      and d: "scan_data (data @ rest) = data" by simp_all
    from loop_fallback_of_scans [OF k d, THEN conjunct1] h obtain r where
      "analyseOneLoop lFields (length pre) = Inr ([r], 1 + length keys + length data, keys)"
      "dom r = set keys"
      "\<forall>j<length keys. keys ! j \<notin> set (drop (Suc j) keys) \<longrightarrow>
         r (keys ! j) = Some (if j < length data then data ! j else ''?'')"
      by blast
    with later show "\<exists>r. analyseOneLoop lFields (length pre) =
                  Inr ([r], 1 + length keys + length data, keys) \<and>
              dom r = set keys \<and>
              (\<forall>j<length keys. r (keys ! j) = Some (if j < length data then data ! j else ''?''))"
      by blast
  next
    assume h: "1 \<le> length keys \<and> length keys \<le> length data"
    then have "data \<noteq> []" by auto
    from scans [OF this] have k: "scan_keys (drop (length pre + 1) lFields) = Inr (keys, data @ rest)"
      and d: "scan_data (data @ rest) = data" by simp_all
    from loop_fallback_of_scans [OF k d, THEN conjunct2] h obtain loop where
      "analyseOneLoop lFields (length pre) = Inr (loop, 1 + length keys + length data, keys)"
      "length loop = length data div length keys"
      "\<forall>m<length loop. dom (loop ! m) = set keys \<and>
         (\<forall>j<length keys. keys ! j \<notin> set (drop (Suc j) keys) \<longrightarrow>
            (loop ! m) (keys ! j) = Some (data ! (m * length keys + j)))"
      by blast
    with later show "\<exists>loop. analyseOneLoop lFields (length pre) =
                  Inr (loop, 1 + length keys + length data, keys) \<and>
              length loop = length data div length keys \<and>
              (\<forall>m<length loop. dom (loop ! m) = set keys \<and>
                 (\<forall>j<length keys. (loop ! m) (keys ! j) = Some (data ! (m * length keys + j))))"
      by blast
  qed
qed

text \<open>
  The claim C3 as it was stated fails with two keys and five data values: five is not a
  multiple of two, and the result is two full records and no placeholder, not one record.
  It also fails where a key is written twice: of the keys \<^verbatim>\<open>_a\<close>, \<^verbatim>\<open>_a\<close>, \<^verbatim>\<open>_b\<close> with the
  one value \<^verbatim>\<open>1\<close>, the first does not keep the first value.
\<close>

theorem loop_fallback_counterexample:
  "analyseOneLoop [''loop_'', ''_a'', ''_b'', ''1'', ''2'', ''3'', ''4'', ''5''] 0 =
     Inr ([[''_a'' \<mapsto> ''1'', ''_b'' \<mapsto> ''2''], [''_a'' \<mapsto> ''3'', ''_b'' \<mapsto> ''4'']],
          8, [''_a'', ''_b'']) \<and>
   analyseOneLoop [''loop_'', ''_a'', ''_a'', ''_b'', ''1''] 0 =
     Inr ([[''_a'' \<mapsto> ''?'', ''_b'' \<mapsto> ''?'']], 5, [''_a'', ''_a'', ''_b''])"
proof -
  have "length [''1'', ''2'', ''3'', ''4'', ''5''] div length [''_a'', ''_b''] = Suc (Suc 0)"
    by code_simp
  then have "partition_loop [''_a'', ''_b''] [''1'', ''2'', ''3'', ''4'', ''5''] =
      Inr [[''_a'' \<mapsto> ''1'', ''_b'' \<mapsto> ''2''], [''_a'' \<mapsto> ''3'', ''_b'' \<mapsto> ''4'']]"
    by (simp add: partition_loop_def)
  then have "analyseOneLoop [''loop_'', ''_a'', ''_b'', ''1'', ''2'', ''3'', ''4'', ''5''] 0 =
     Inr ([[''_a'' \<mapsto> ''1'', ''_b'' \<mapsto> ''2''], [''_a'' \<mapsto> ''3'', ''_b'' \<mapsto> ''4'']],
          8, [''_a'', ''_b''])"
    by (simp add: analyseOneLoop_def py_index_def)
  moreover have "analyseOneLoop [''loop_'', ''_a'', ''_a'', ''_b'', ''1''] 0 =
     Inr ([[''_a'' \<mapsto> ''?'', ''_b'' \<mapsto> ''?'']], 5, [''_a'', ''_a'', ''_b''])"
    by (simp add: analyseOneLoop_def partition_loop_def py_index_def)
  ultimately show ?thesis by simp
qed

text \<open>
  The amended fallback at the loop \<^verbatim>\<open>loop_ _a _b _c 1\<close>, followed by the keyword
  \<^verbatim>\<open>loop_\<close>: one record, two placeholders.
\<close>

theorem loop_fallback_witness:
  "\<exists>r. analyseOneLoop [''loop_'', ''_a'', ''_b'', ''_c'', ''1'', ''loop_'', ''_d'', ''2''] 0 =
      Inr ([r], 5, [''_a'', ''_b'', ''_c'']) \<and>
     r ''_a'' = Some ''1'' \<and> r ''_b'' = Some ''?'' \<and> r ''_c'' = Some ''?''"
proof -
  have f: "[''loop_'', ''_a'', ''_b'', ''_c'', ''1'', ''loop_'', ''_d'', ''2''] =
      [] @ ''loop_'' # [''_a'', ''_b'', ''_c''] @ [''1''] @ [''loop_'', ''_d'', ''2'']"
    by simp
  have ks: "\<forall>k \<in> set [''_a'', ''_b'', ''_c'']. k \<noteq> [] \<and> k ! 0 = CHR ''_''" by simp
  have dk: "distinct [''_a'', ''_b'', ''_c'']" by simp
  have ds: "\<forall>d \<in> set [''1'']. d \<noteq> [] \<and> d ! 0 \<noteq> CHR ''_'' \<and> d \<notin> set [''loop_'', ''stop_'', ''global_'', ''data_'', ''save_'']" by simp
  have rs: "[''loop_'', ''_d'', ''2''] = [] \<or> hd [''loop_'', ''_d'', ''2''] = [] \<or>
      hd [''loop_'', ''_d'', ''2''] ! 0 = CHR ''_'' \<or> hd [''loop_'', ''_d'', ''2''] \<in> set [''loop_'', ''stop_'', ''global_'', ''data_'', ''save_'']"
    by simp
  have lt: "1 \<le> length [''1''] \<and> length [''1''] < length [''_a'', ''_b'', ''_c'']" by simp
  from loop_fallback [OF f ks dk ds rs, THEN conjunct1, rule_format, OF lt] obtain r where
    r: "analyseOneLoop [''loop_'', ''_a'', ''_b'', ''_c'', ''1'', ''loop_'', ''_d'', ''2''] (length ([] :: string list)) =
      Inr ([r], 1 + length [''_a'', ''_b'', ''_c''] + length [''1''], [''_a'', ''_b'', ''_c''])"
    and p: "\<forall>j<length [''_a'', ''_b'', ''_c''].
        r ([''_a'', ''_b'', ''_c''] ! j) = Some (if j < length [''1''] then [''1''] ! j else ''?'')"
    by auto
  from p [rule_format, of 0] p [rule_format, of 1] p [rule_format, of 2] r
  show ?thesis by simp
qed

text \<open>
  The scenarios of the specification, from the text to the document: the loop with two
  keys and six values, and the minimal header.
\<close>

lemma splitCIF_loop_scenario:
  "splitCIF (py_strip (''loop_'' @ [CHR 0x0A] @ ''_a'' @ [CHR 0x0A] @ ''_b'' @ [CHR 0x0A] @
      ''1 2 3 4 5 6'' @ [CHR 0x0A])) =
   Some (Inr [''loop_'', ''_a'', ''_b'', ''1'', ''2'', ''3'', ''4'', ''5'', ''6''])"
  by code_simp

lemma splitCIF_minimal_header:
  "splitCIF (py_strip (''_key value'' @ [CHR 0x0A])) = Some (Inr [''_key'', ''value''])"
  by code_simp

lemma parseCIF_minimal_header:
  "parseCIF CIF_init (''_key value'' @ [CHR 0x0A]) =
     Some (Inr \<lparr>items = [''_key'' \<mapsto> Str ''value''], ordered = [''_key'']\<rparr>)"
  by (simp only: parseCIF_def splitCIF_minimal_header option.case sum.case)
    (simp add: assemble_def py_lower_def py_lower_char_def py_index_def upt_rec setitem_def CIF_init_def)

lemma parseCIF_loop_scenario:
  "parseCIF CIF_init (''loop_'' @ [CHR 0x0A] @ ''_a'' @ [CHR 0x0A] @ ''_b'' @ [CHR 0x0A] @
      ''1 2 3 4 5 6'' @ [CHR 0x0A]) =
     Some (Inr \<lparr>items = [''loop_'' \<mapsto> Loops [([''_a'', ''_b''],
       [[''_a'' \<mapsto> ''1'', ''_b'' \<mapsto> ''2''], [''_a'' \<mapsto> ''3'', ''_b'' \<mapsto> ''4''],
        [''_a'' \<mapsto> ''5'', ''_b'' \<mapsto> ''6'']])]], ordered = [''loop_'']\<rparr>)"
proof -
  have idx: "filter (\<lambda>i. py_lower ([''loop_'', ''_a'', ''_b'', ''1'', ''2'', ''3'', ''4'', ''5'', ''6''] ! i) = ''loop_'')
      [0..<length [''loop_'', ''_a'', ''_b'', ''1'', ''2'', ''3'', ''4'', ''5'', ''6'']] = [0]"
    by code_simp
  have dv: "length [''1'', ''2'', ''3'', ''4'', ''5'', ''6''] div length [''_a'', ''_b''] = Suc (Suc (Suc 0))"
    by code_simp
  have p: "partition_loop [''_a'', ''_b''] [''1'', ''2'', ''3'', ''4'', ''5'', ''6''] =
      Inr [[''_a'' \<mapsto> ''1'', ''_b'' \<mapsto> ''2''], [''_a'' \<mapsto> ''3'', ''_b'' \<mapsto> ''4''],
        [''_a'' \<mapsto> ''5'', ''_b'' \<mapsto> ''6'']]"
    using dv by (simp add: partition_loop_def)
  have a: "analyseOneLoop [''loop_'', ''_a'', ''_b'', ''1'', ''2'', ''3'', ''4'', ''5'', ''6''] 0 =
      Inr ([[''_a'' \<mapsto> ''1'', ''_b'' \<mapsto> ''2''], [''_a'' \<mapsto> ''3'', ''_b'' \<mapsto> ''4''],
        [''_a'' \<mapsto> ''5'', ''_b'' \<mapsto> ''6'']], 9, [''_a'', ''_b''])"
    using p by (simp add: analyseOneLoop_def py_index_def)
  have "assemble CIF_init [''loop_'', ''_a'', ''_b'', ''1'', ''2'', ''3'', ''4'', ''5'', ''6''] =
      Inr \<lparr>items = [''loop_'' \<mapsto> Loops [([''_a'', ''_b''],
       [[''_a'' \<mapsto> ''1'', ''_b'' \<mapsto> ''2''], [''_a'' \<mapsto> ''3'', ''_b'' \<mapsto> ''4''],
        [''_a'' \<mapsto> ''5'', ''_b'' \<mapsto> ''6'']])]], ordered = [''loop_'']\<rparr>"
    unfolding assemble_def idx Let_def
    by (simp add: a setitem_def CIF_init_def)
  then show ?thesis
    by (simp only: parseCIF_def splitCIF_loop_scenario option.case sum.case)
qed


section \<open>The tokenizer and the assembler on malformed text\<close>


text \<open>
  A round of the quoted-field loop in which \<^verbatim>\<open>find\<close> gives \<open>-1\<close> leaves \<open>idx\<close> as it
  was. When \<open>idx\<close> is then before the last character and the character after it is not a
  blank, neither exit is taken and the next round is the same: the loop does not return.
\<close>

lemma quoted_loop_stuck:
  assumes nf: "py_find (py_slice_from sText (idx + 1)) [q] = - 1"
    and len: "idx < int (length sText) - 1" and nn: "0 \<le> idx"
    and nb: "[sText ! nat (idx + 1)] \<notin> set BLANK"
  shows "quoted_loop q sText idx = None"
proof (cases "quoted_loop q sText idx")
  case None
  then show ?thesis .
next
  case (Some r)
  have ix: "py_index sText (idx + 1) = Inr (sText ! nat (idx + 1))"
    using len nn by (simp add: py_index_def)
  have "\<not> (q = q \<and> sText = sText \<and> idx = idx)"
  proof (rule quoted_loop.raw_induct
      [where P = "\<lambda>q' s i r. \<not> (q' = q \<and> s = sText \<and> i = idx)", OF _ Some])
    fix f q' s i r
    assume IH: "\<And>q' s i r. f q' s i = Some r \<Longrightarrow> \<not> (q' = q \<and> s = sText \<and> i = idx)"
      and step: "(let idx = i + (1 + py_find (py_slice_from s (i + 1)) [q'])
      in if int (length s) - 1 \<le> idx
         then Some (Inr (py_strip (py_slice s 1 (- 1)), []))
         else case py_index s (idx + 1) of Inl e \<Rightarrow> Some (Inl e)
              | Inr c \<Rightarrow>
                  if [c] \<in> set BLANK
                  then Some
                        (Inr (py_strip (py_slice s 1 idx),
                              py_strip (py_slice_from s (idx + 1))))
                  else f q' s idx) = Some r"
    show "\<not> (q' = q \<and> s = sText \<and> i = idx)"
    proof
      assume h: "q' = q \<and> s = sText \<and> i = idx"
      from step h nf len nb ix have "f q sText idx = Some r"
        by (simp add: Let_def split: if_splits)
      with IH show False by blast
    qed
  qed
  then show ?thesis by simp
qed

text \<open>The same for the loop of a \<^verbatim>\<open>;\<close> field, whose only exit is an end of line before \<open>idx\<close>.\<close>

lemma semicolon_loop_stuck:
  assumes nf: "py_find (py_slice_from sText (idx + 1)) '';'' = - 1"
    and ix: "py_index sText (idx - 1) = Inr c"
    and ne: "[c] \<notin> set EOL"
  shows "semicolon_loop sText idx = None"
proof (cases "semicolon_loop sText idx")
  case None
  then show ?thesis .
next
  case (Some r)
  have "\<not> (sText = sText \<and> idx = idx)"
  proof (rule semicolon_loop.raw_induct
      [where P = "\<lambda>s i r. \<not> (s = sText \<and> i = idx)", OF _ Some])
    fix f s i r
    assume IH: "\<And>s i r. f s i = Some r \<Longrightarrow> \<not> (s = sText \<and> i = idx)"
      and step: "(let idx = i + (1 + py_find (py_slice_from s (i + 1)) '';'')
      in case py_index s (idx - 1) of Inl e \<Rightarrow> Some (Inl e)
         | Inr c \<Rightarrow>
             if [c] \<in> set EOL
             then Some
                   (Inr (py_strip (py_slice s 1 (idx - 1)),
                         py_strip (py_slice_from s (idx + 1))))
             else f s idx) = Some r"
    show "\<not> (s = sText \<and> i = idx)"
    proof
      assume h: "s = sText \<and> i = idx"
      from step h nf ix ne have "f sText idx = Some r"
        by (simp add: Let_def split: if_splits)
      with IH show False by blast
    qed
  qed
  then show ?thesis by simp
qed

lemma quoted_loop_no_quote: "quoted_loop (CHR 0x27) (CHR 0x27 # ''abc'') 0 = None"
  by (rule quoted_loop_stuck) (simp_all add: py_slice_from_def py_bound_def BLANK_def EOL_def)

text \<open>
  C4. Tokenizer totality asks that \<^verbatim>\<open>_splitCIF\<close> return, with the field list or with a
  failure, on every text. It does not: on the four characters \<^verbatim>\<open>'abc\<close>, an opening quote
  whose closing quote never occurs, the call does not return (the value \<open>None\<close> of the
  model), since the quoted-field loop stays at \<open>idx = 0\<close> for ever.
\<close>

theorem splitCIF_unclosed_quote: "splitCIF (CHR 0x27 # ''abc'') = None"
  unfolding splitCIF_def
  by (subst splitCIF_loop.simps) (simp add: quoted_loop_no_quote)

lemma quoted_loop_quote_then_text:
  "quoted_loop (CHR 0x22) (CHR 0x22 # ''ab'' @ [CHR 0x22] @ ''c'') 0 = None"
proof -
  have "quoted_loop (CHR 0x22) (CHR 0x22 # ''ab'' @ [CHR 0x22] @ ''c'') 0 =
        quoted_loop (CHR 0x22) (CHR 0x22 # ''ab'' @ [CHR 0x22] @ ''c'') 3"
    by (subst quoted_loop.simps)
      (simp add: py_slice_from_def py_bound_def py_index_def BLANK_def EOL_def)
  also have "\<dots> = None"
    by (rule quoted_loop_stuck) (simp_all add: py_slice_from_def py_bound_def BLANK_def EOL_def)
  finally show ?thesis .
qed

text \<open>
  C5. Graceful truncation asks that a text which begins with a quote, and has no closing
  quote followed by a blank before its end, be emitted as one field. On the five characters
  \<^verbatim>\<open>"ab"c\<close>, where the closing quote is followed by \<^verbatim>\<open>c\<close>, \<^verbatim>\<open>_splitCIF\<close> emits nothing
  and does not return: the loop reaches the second quote (\<open>idx = 3\<close>), finds no further
  quote, and stays there.
\<close>

theorem splitCIF_quote_not_followed_by_blank:
  "splitCIF (CHR 0x22 # ''ab'' @ [CHR 0x22] @ ''c'') = None"
  unfolding splitCIF_def
  by (subst splitCIF_loop.simps) (simp add: quoted_loop_quote_then_text [simplified])

text \<open>The loop of a \<^verbatim>\<open>;\<close> field has the same fate when no line-initial \<^verbatim>\<open>;\<close> closes it.\<close>

lemma splitCIF_unclosed_semicolon: "splitCIF '';abc'' = None"
proof -
  have st: "semicolon_start '';abc'' = 0"
    by (simp add: semicolon_start_def py_slice_from_def py_bound_def py_strip_def
        py_isspace_def BINARY_MARKER_def)
  have "semicolon_loop '';abc'' 0 = None"
    by (rule semicolon_loop_stuck [where c = "CHR ''c''"])
      (simp_all add: py_slice_from_def py_bound_def py_index_def EOL_def)
  then show ?thesis
    unfolding splitCIF_def
    by (subst splitCIF_loop.simps) (simp add: st)
qed

text \<open>
  The truncation that the source does handle: the quote scan reaches the last character.
  A quoted field closed by the last character of the text is emitted without its quotes.
\<close>

lemma splitCIF_quote_at_end: "splitCIF (CHR 0x27 # ''ab c'' @ [CHR 0x27]) = Some (Inr [''ab c''])"
  by code_simp

text \<open>
  An empty first field is a field list the tokenizer does produce: the text
  \<^verbatim>\<open>'' _a ''\<close> gives the fields \<^verbatim>\<open>""\<close>, \<^verbatim>\<open>"_a"\<close>, \<^verbatim>\<open>""\<close>.
\<close>

lemma splitCIF_empty_first_field:
  "splitCIF (CHR 0x27 # CHR 0x27 # '' _a '' @ [CHR 0x27, CHR 0x27]) = Some (Inr [[], ''_a'', []])"
  by code_simp

lemma assemble_empty_first_field: "assemble c [[], ''_a'', []] = Inl IndexError"
  by (simp add: assemble_def py_lower_def py_index_def upt_rec)

text \<open>
  C10. Empty value becomes placeholder: a key followed by an empty field is to be stored
  with the value \<^verbatim>\<open>"?"\<close>. In the text \<^verbatim>\<open>'' _a ''\<close> the key \<^verbatim>\<open>_a\<close> is followed by an empty
  field, but the first field is empty too, and \<^verbatim>\<open>_parseCIF\<close> raises \<^verbatim>\<open>IndexError\<close> at
  \<^verbatim>\<open>lFields[0][0]\<close> in the first round, before it stores anything: the replacement by
  \<^verbatim>\<open>"?"\<close> guards \<^verbatim>\<open>lFields[i + 1]\<close> in every round and never \<^verbatim>\<open>lFields[0]\<close>.
\<close>

theorem parseCIF_empty_first_field:
  "parseCIF CIF_init (CHR 0x27 # CHR 0x27 # '' _a '' @ [CHR 0x27, CHR 0x27]) = Some (Inl IndexError)"
proof -
  have "py_strip (CHR 0x27 # CHR 0x27 # '' _a '' @ [CHR 0x27, CHR 0x27]) =
        CHR 0x27 # CHR 0x27 # '' _a '' @ [CHR 0x27, CHR 0x27]"
    by code_simp
  then show ?thesis
    by (simp only: parseCIF_def splitCIF_empty_first_field assemble_empty_first_field
        option.case sum.case)
qed

text \<open>
  Where the first field is not empty the pairing loop does reach every pair of fields, and
  at a key followed by an empty field it makes the assignment of \<^verbatim>\<open>"?"\<close> to the key and
  goes on with \<^verbatim>\<open>"?"\<close> in the place of the empty field.
\<close>

lemma pair_fields_step:
  assumes "f \<noteq> []"
  shows "\<exists>c1. pair_fields (f # p # rest) c =
               pair_fields ((if length p = 0 then ''?'' else p) # rest) c1"
proof -
  define p' where "p' = (if length p = 0 then ''?'' else p)"
  obtain a l where f: "f = a # l" using assms by (cases f) auto
  have eq: "pair_fields (f # p # rest) c =
      (if a = CHR ''_'' \<and> p' ! 0 \<noteq> CHR ''_''
       then pair_fields (p' # rest) (setitem f (Str p') c)
       else pair_fields (p' # rest) c)"
    by (simp add: f py_index_def Let_def p'_def)
  show ?thesis
  proof (cases "a = CHR ''_'' \<and> p' ! 0 \<noteq> CHR ''_''")
    case True
    with eq have "pair_fields (f # p # rest) c = pair_fields (p' # rest) (setitem f (Str p') c)"
      by simp
    then show ?thesis unfolding p'_def by blast
  next
    case False
    with eq have "pair_fields (f # p # rest) c = pair_fields (p' # rest) c"
      by simp
    then show ?thesis unfolding p'_def by blast
  qed
qed

lemma pair_fields_reaches:
  "f \<noteq> [] \<Longrightarrow> k \<noteq> [] \<Longrightarrow>
   \<exists>c'. pair_fields (f # pre @ k # post) c = pair_fields (k # post) c'"
proof (induction pre arbitrary: f c)
  case Nil
  from pair_fields_step [OF Nil(1), of k post c] Nil(2) show ?case by simp
next
  case (Cons p pre)
  define p' where "p' = (if length p = 0 then ''?'' else p)"
  have p': "p' \<noteq> []" by (simp add: p'_def)
  from pair_fields_step [OF Cons.prems(1), of p "pre @ k # post" c] obtain c1 where
    "pair_fields (f # (p # pre) @ k # post) c = pair_fields (p' # pre @ k # post) c1"
    unfolding p'_def by auto
  moreover from Cons.IH [OF p' Cons.prems(2)] obtain c' where
    "pair_fields (p' # pre @ k # post) c1 = pair_fields (k # post) c'" by blast
  ultimately show ?case by auto
qed

lemma pair_fields_placeholder:
  assumes k: "k \<noteq> []" "k ! 0 = CHR ''_''"
    and first: "hd (pre @ [k]) \<noteq> []"
  shows "\<exists>c'. pair_fields (pre @ k # [] # post) c =
               pair_fields (''?'' # post) (setitem k (Str ''?'') c')"
proof -
  have step: "pair_fields (k # [] # post) c' =
              pair_fields (''?'' # post) (setitem k (Str ''?'') c')" for c'
    using k by (cases k) (auto simp: py_index_def Let_def)
  show ?thesis
  proof (cases pre)
    case Nil
    then show ?thesis using step by auto
  next
    case (Cons f pre')
    with first have "f \<noteq> []" by simp
    from pair_fields_reaches [OF this k(1), of pre' "[] # post" c] obtain c' where
      "pair_fields (f # pre' @ k # [] # post) c = pair_fields (k # [] # post) c'" by blast
    with step Cons show ?thesis by auto
  qed
qed


section \<open>The checks of the read path\<close>


text \<open>
  C6. Missing or non-numeric dimension keys are fatal. When the header that
  \<^verbatim>\<open>_readheader\<close> left lacks the fastest-dimension key or the second-dimension key, or
  the value of either is not accepted by \<^verbatim>\<open>int\<close>, \<^verbatim>\<open>read\<close> raises
  \<^verbatim>\<open>Exception(IOError, "CBF file <fname> is corrupt, no dimensions in it")\<close>, whose message
  holds the file name; whatever the decoder and the rest of the header are, nothing is
  decoded and no data is returned.
\<close>

theorem read_no_dimensions:
  assumes "header ''X-Binary-Size-Fastest-Dimension'' = None \<or>
           header ''X-Binary-Size-Second-Dimension'' = None \<or>
           (\<exists>v. header ''X-Binary-Size-Fastest-Dimension'' = Some v \<and> to_int v = None) \<or>
           (\<exists>v. header ''X-Binary-Size-Second-Dimension'' = Some v \<and> to_int v = None)"
  shows "read to_int dec shape fname header array_data =
           Inl (Exception_IOError (''CBF file '' @ fname @ '' is corrupt, no dimensions in it''))"
proof -
  have "read_dims to_int header = None"
    using assms by (auto simp: read_dims_def split: option.splits)
  then show ?thesis by (simp add: read_def)
qed

lemma astype_one: "astype Int32 1 = 1"
  by code_simp

lemma py_int_examples: "py_int ''10'' = Some 10" "py_int ''abc'' = None" "py_int ''1'' = Some 1"
  by code_simp+

text \<open>
  The theorem at a header without the fastest-dimension key, and at one in which its value
  is \<^verbatim>\<open>abc\<close>.
\<close>

theorem read_no_dimensions_witness:
  "read py_int dec_byte_offset np_shape ''img.cbf''
     [''X-Binary-Size-Second-Dimension'' \<mapsto> ''10'', ''conversions'' \<mapsto> ''x-CBF_BYTE_OFFSET''] [] =
     Inl (Exception_IOError ''CBF file img.cbf is corrupt, no dimensions in it'') \<and>
   read py_int dec_byte_offset np_shape ''img.cbf''
     [''X-Binary-Size-Fastest-Dimension'' \<mapsto> ''abc'', ''X-Binary-Size-Second-Dimension'' \<mapsto> ''10''] [] =
     Inl (Exception_IOError ''CBF file img.cbf is corrupt, no dimensions in it'')"
  using read_no_dimensions [of "[''X-Binary-Size-Second-Dimension'' \<mapsto> ''10'', ''conversions'' \<mapsto> ''x-CBF_BYTE_OFFSET'']"
      py_int dec_byte_offset np_shape "''img.cbf''" "[]"]
    read_no_dimensions [of "[''X-Binary-Size-Fastest-Dimension'' \<mapsto> ''abc'', ''X-Binary-Size-Second-Dimension'' \<mapsto> ''10'']"
      py_int dec_byte_offset np_shape "''img.cbf''" "[]"]
  by (simp add: py_int_examples)

text \<open>
  C7, as amended. Unsupported compression is fatal where the dimensions are read. Let
  the two dimension keys be present and integers, and let the
  header have a value under \<^verbatim>\<open>conversions\<close>. If the value is not
  \<^verbatim>\<open>x-CBF_BYTE_OFFSET\<close>, \<^verbatim>\<open>read\<close> raises
  \<^verbatim>\<open>Exception(IOError, "Compression scheme not yet supported, ...")\<close>, whatever the decoder
  is: it is not called. If the value is \<^verbatim>\<open>x-CBF_BYTE_OFFSET\<close>, the test raises nothing:
  the result of \<^verbatim>\<open>read\<close> is that of the binary extraction, reshaped.
\<close>

theorem read_compression_check:
  assumes "header ''X-Binary-Size-Fastest-Dimension'' = Some v1" "to_int v1 = Some dim1"
    and "header ''X-Binary-Size-Second-Dimension'' = Some v2" "to_int v2 = Some dim2"
    and "header ''conversions'' = Some conversions"
  shows "(conversions \<noteq> ''x-CBF_BYTE_OFFSET'' \<longrightarrow>
            read to_int dec shape fname header array_data =
              Inl (Exception_IOError
                ''Compression scheme not yet supported, please contact FABIO development team'')) \<and>
         (conversions = ''x-CBF_BYTE_OFFSET'' \<longrightarrow>
            read to_int dec shape fname header array_data =
              (case readbinary_byte_offset to_int dec header dim1 dim2 array_data of
                 Inl e \<Rightarrow> Inl e
               | Inr myData \<Rightarrow> shape (read_bytecode header) dim2 dim1 myData))"
proof -
  have "read_dims to_int header = Some (dim1, dim2)"
    using assms(1-4) by (simp add: read_dims_def)
  then show ?thesis using assms(5) by (simp add: read_def)
qed

lemma decode_one: "decode [1] (Suc 0) = Inr [1]"
  by code_simp

lemma no_starter: "py_find [CHR ''a'', CHR ''b'', CHR ''c'', CHR 0x01] STARTER = - 1"
  by (simp add: STARTER_def)

text \<open>
  When the sentinel does not occur, \<^verbatim>\<open>find\<close> gives \<open>-1\<close> and \<^verbatim>\<open>startPos\<close> is 3: the
  decoder is called on the bytes from position 3.
\<close>

lemma readbinary_absent_sentinel:
  assumes "py_find inStream STARTER = - 1"
    and "header ''X-Binary-Size'' = Some v" "to_int v = Some binary_size"
  shows "readbinary_byte_offset to_int dec header dim1 dim2 inStream =
           (case dec (py_slice inStream 3 (3 + binary_size)) (dim1 * dim2) of
              Inl e \<Rightarrow> Inl e
            | Inr myData \<Rightarrow>
                if int (length myData) = dim1 * dim2 then Inr myData else Inl AssertionError)"
  using assms by (simp add: readbinary_byte_offset_def)

text \<open>
  C8. Missing binary sentinel is fatal: the binary extraction is to fail when the
  sentinel \<^verbatim>\<open>0x0C 0x1A 0x04 0xD5\<close> does not occur in the array-data field. In the field
  of the four bytes \<^verbatim>\<open>a b c 0x01\<close> the sentinel does not occur; with a declared binary
  size of 1 and dimensions 1 by 1, \<^verbatim>\<open>_readbinary_byte_offset\<close> decodes the byte at
  position 3 and returns the sample 1, and \<^verbatim>\<open>read\<close> returns an image, with no error.
\<close>

theorem read_without_sentinel:
  "py_find [CHR ''a'', CHR ''b'', CHR ''c'', CHR 0x01] STARTER = - 1 \<and>
   readbinary_byte_offset py_int dec_byte_offset [''X-Binary-Size'' \<mapsto> ''1''] 1 1
     [CHR ''a'', CHR ''b'', CHR ''c'', CHR 0x01] = Inr [1] \<and>
   read py_int dec_byte_offset np_shape ''img.cbf''
     [''X-Binary-Size-Fastest-Dimension'' \<mapsto> ''1'', ''X-Binary-Size-Second-Dimension'' \<mapsto> ''1'',
      ''conversions'' \<mapsto> ''x-CBF_BYTE_OFFSET'', ''X-Binary-Size'' \<mapsto> ''1'']
     [CHR ''a'', CHR ''b'', CHR ''c'', CHR 0x01] = Inr (Int32, [[1]])"
proof -
  have r: "readbinary_byte_offset py_int dec_byte_offset header 1 1 [CHR ''a'', CHR ''b'', CHR ''c'', CHR 0x01] = Inr [1]"
    if "header ''X-Binary-Size'' = Some ''1''" for header
    using that
    by (simp add: readbinary_byte_offset_def STARTER_def py_int_examples py_slice_def
        py_bound_def dec_byte_offset_def decode_one)
  have "read py_int dec_byte_offset np_shape ''img.cbf''
     [''X-Binary-Size-Fastest-Dimension'' \<mapsto> ''1'', ''X-Binary-Size-Second-Dimension'' \<mapsto> ''1'',
      ''conversions'' \<mapsto> ''x-CBF_BYTE_OFFSET'', ''X-Binary-Size'' \<mapsto> ''1'']
     [CHR ''a'', CHR ''b'', CHR ''c'', CHR 0x01] = Inr (Int32, [[1]])"
    by (simp add: read_def read_dims_def read_bytecode_def py_int_examples r np_shape_def astype_one)
  with r [of "[''X-Binary-Size'' \<mapsto> ''1'']"] no_starter show ?thesis by simp
qed

lemma readbinary_with_sentinel:
  "header ''X-Binary-Size'' = Some ''1'' \<Longrightarrow>
   readbinary_byte_offset py_int dec_byte_offset header 1 1 (STARTER @ [CHR 0x01]) = Inr [1]"
  by (simp add: readbinary_byte_offset_def STARTER_def py_int_examples py_slice_def
      py_bound_def dec_byte_offset_def decode_one)

text \<open>
  The claim C7 as it was stated fails at a header with the tag \<^verbatim>\<open>x-CBF_NONE\<close> and no
  dimension keys: the dimensions are read first, and \<^verbatim>\<open>read\<close> raises the error of the
  missing dimensions, not the error of the compression scheme.
\<close>

theorem read_compression_check_counterexample:
  "read py_int dec_byte_offset np_shape ''img.cbf'' [''conversions'' \<mapsto> ''x-CBF_NONE''] [] =
     Inl (Exception_IOError ''CBF file img.cbf is corrupt, no dimensions in it'')"
  by (simp add: read_def read_dims_def)

text \<open>
  The theorem at a container of one sample with the tag \<^verbatim>\<open>x-CBF_NONE\<close>, which is
  refused, and with the tag \<^verbatim>\<open>x-CBF_BYTE_OFFSET\<close>, which is read.
\<close>

theorem read_compression_check_witness:
  "read py_int dec_byte_offset np_shape ''img.cbf''
     [''X-Binary-Size-Fastest-Dimension'' \<mapsto> ''1'', ''X-Binary-Size-Second-Dimension'' \<mapsto> ''1'',
      ''conversions'' \<mapsto> ''x-CBF_NONE'', ''X-Binary-Size'' \<mapsto> ''1'']
     (STARTER @ [CHR 0x01]) =
     Inl (Exception_IOError
       ''Compression scheme not yet supported, please contact FABIO development team'') \<and>
   read py_int dec_byte_offset np_shape ''img.cbf''
     [''X-Binary-Size-Fastest-Dimension'' \<mapsto> ''1'', ''X-Binary-Size-Second-Dimension'' \<mapsto> ''1'',
      ''conversions'' \<mapsto> ''x-CBF_BYTE_OFFSET'', ''X-Binary-Size'' \<mapsto> ''1'']
     (STARTER @ [CHR 0x01]) = Inr (Int32, [[1]])"
  using
    read_compression_check [of
      "[''X-Binary-Size-Fastest-Dimension'' \<mapsto> ''1'', ''X-Binary-Size-Second-Dimension'' \<mapsto> ''1'',
        ''conversions'' \<mapsto> ''x-CBF_NONE'', ''X-Binary-Size'' \<mapsto> ''1'']"
      "''1''" py_int 1 "''1''" 1 "''x-CBF_NONE''" dec_byte_offset np_shape "''img.cbf''"
      "STARTER @ [CHR 0x01]"]
    read_compression_check [of
      "[''X-Binary-Size-Fastest-Dimension'' \<mapsto> ''1'', ''X-Binary-Size-Second-Dimension'' \<mapsto> ''1'',
        ''conversions'' \<mapsto> ''x-CBF_BYTE_OFFSET'', ''X-Binary-Size'' \<mapsto> ''1'']"
      "''1''" py_int 1 "''1''" 1 "''x-CBF_BYTE_OFFSET''" dec_byte_offset np_shape "''img.cbf''"
      "STARTER @ [CHR 0x01]"]
  by (simp add: py_int_examples readbinary_with_sentinel read_bytecode_def np_shape_def astype_one)

end
